theory Spec2Isabelle
  imports Complex_Main "HOL-Library.Sublist"
begin

section \<open>Python strings\<close>

text \<open>
  The scraper (\<^verbatim>\<open>stanford-who/stanfordwho_scraper.py\<close>) works on Python \<^verbatim>\<open>str\<close>
  values. They are modelled as \<^typ>\<open>string\<close>, each \<^typ>\<open>char\<close> read as the code point
  of the same number (U+0000 to U+00FF); text with code points beyond U+00FF is outside
  the model. The classes of characters below are those of Python 3 on that range.
\<close>

definition py_isspace :: "char \<Rightarrow> bool" where
  \<comment> \<open>\<^verbatim>\<open>str.isspace\<close> on one character: what \<^verbatim>\<open>split()\<close> and \<^verbatim>\<open>strip()\<close> treat as whitespace\<close>
  "py_isspace c = ((of_char c :: nat) \<in> {9, 10, 11, 12, 13, 28, 29, 30, 31, 32, 133, 160})"

definition py_islinebreak :: "char \<Rightarrow> bool" where
  \<comment> \<open>the line boundaries of \<^verbatim>\<open>str.splitlines\<close>\<close>
  "py_islinebreak c = ((of_char c :: nat) \<in> {10, 11, 12, 13, 28, 29, 30, 133})"

definition py_strip_chars :: "string \<Rightarrow> string \<Rightarrow> string" where
  \<comment> \<open>\<^verbatim>\<open>s.strip(chars)\<close>: both ends\<close>
  "py_strip_chars chars s =
     rev (dropWhile (\<lambda>c. c \<in> set chars) (rev (dropWhile (\<lambda>c. c \<in> set chars) s)))"

definition py_strip :: "string \<Rightarrow> string" where
  \<comment> \<open>\<^verbatim>\<open>s.strip()\<close>\<close>
  "py_strip s = rev (dropWhile py_isspace (rev (dropWhile py_isspace s)))"

fun split_ws :: "string \<Rightarrow> string \<Rightarrow> string list" where
  \<comment> \<open>the token being read (reversed) and the text still to read\<close>
  "split_ws tok [] = (if tok = [] then [] else [rev tok])"
| "split_ws tok (c # cs) =
     (if py_isspace c then (if tok = [] then split_ws [] cs else rev tok # split_ws [] cs)
      else split_ws (c # tok) cs)"

definition py_split :: "string \<Rightarrow> string list" where
  \<comment> \<open>\<^verbatim>\<open>s.split()\<close>: the maximal runs of non-whitespace\<close>
  "py_split s = split_ws [] s"

fun splitlines_from :: "string \<Rightarrow> string \<Rightarrow> string list" where
  \<comment> \<open>the line being read (reversed) and the text still to read\<close>
  "splitlines_from cur [] = (if cur = [] then [] else [rev cur])"
| "splitlines_from cur [c] = (if py_islinebreak c then [rev cur] else [rev (c # cur)])"
| "splitlines_from cur (c # d # cs) =
     (if c = CHR 0x0D \<and> d = CHR 0x0A then rev cur # splitlines_from [] cs
      else if py_islinebreak c then rev cur # splitlines_from [] (d # cs)
      else splitlines_from (c # cur) (d # cs))"

definition py_splitlines :: "string \<Rightarrow> string list" where
  \<comment> \<open>\<^verbatim>\<open>s.splitlines()\<close>\<close>
  "py_splitlines s = splitlines_from [] s"

fun py_in :: "string \<Rightarrow> string \<Rightarrow> bool" where
  \<comment> \<open>\<^verbatim>\<open>sub in s\<close>\<close>
  "py_in sub [] = (sub = [])"
| "py_in sub (c # cs) = (prefix sub (c # cs) \<or> py_in sub cs)"

fun after_first :: "string \<Rightarrow> string \<Rightarrow> string" where
  \<comment> \<open>\<^verbatim>\<open>s.split(sep, 1)[-1]\<close> for a non-empty \<^verbatim>\<open>sep\<close>: what follows the first
      occurrence of \<^verbatim>\<open>sep\<close>, or all of \<^verbatim>\<open>s\<close> when there is none\<close>
  "after_first sep [] = []"
| "after_first sep (c # cs) =
     (if prefix sep (c # cs) then drop (length sep) (c # cs)
      else if py_in sep cs then after_first sep cs else c # cs)"

fun py_join :: "string \<Rightarrow> string list \<Rightarrow> string" where
  \<comment> \<open>\<^verbatim>\<open>sep.join(parts)\<close>\<close>
  "py_join sep [] = []"
| "py_join sep [p] = p"
| "py_join sep (p # q # ps) = p @ sep @ py_join sep (q # ps)"

text \<open>
  The exceptions of Python and of Selenium that the functions can meet. All of them are
  subclasses of \<^verbatim>\<open>Exception\<close>, which is what the \<^verbatim>\<open>except Exception\<close> clauses of the
  source catch; \<^verbatim>\<open>wait_for_any_selector\<close> alone catches \<^verbatim>\<open>TimeoutException\<close> only.
\<close>

datatype error =
  TimeoutException
| NoSuchElementException
| StaleElementReferenceException
| NoSuchWindowException
| ElementClickInterceptedException
| WebDriverException
| ValueError
| IndexError

definition py_isdigit :: "string \<Rightarrow> bool" where
  \<comment> \<open>\<^verbatim>\<open>s.isdigit()\<close>: non-empty, every character a digit. Below U+0100 the digits are
      0 to 9 and the superscripts U+00B2, U+00B3 and U+00B9.\<close>
  "py_isdigit s =
     (s \<noteq> [] \<and> list_all (\<lambda>c. (of_char c :: nat) \<in> {48..57} \<union> {178, 179, 185}) s)"

fun decimal_value :: "nat \<Rightarrow> string \<Rightarrow> nat" where
  \<comment> \<open>the value read so far and the digits still to read\<close>
  "decimal_value acc [] = acc"
| "decimal_value acc (c # cs) = decimal_value (10 * acc + (of_char c - 48)) cs"

definition int_max_str_digits :: nat where
  \<comment> \<open>\<^verbatim>\<open>sys.get_int_max_str_digits()\<close>, the interpreter's default limit on the number of
      digits of a decimal numeral that is converted to or from an \<^verbatim>\<open>int\<close>\<close>
  "int_max_str_digits = 4300"

definition py_int :: "string \<Rightarrow> error + nat" where
  \<comment> \<open>\<^verbatim>\<open>int(s)\<close> on a string that \<^verbatim>\<open>isdigit\<close> accepted: the superscript digits are
      refused with \<^verbatim>\<open>ValueError\<close>, and so is a numeral of more digits than the limit,
      leading zeros counted\<close>
  "py_int s =
     (if s \<noteq> [] \<and> list_all (\<lambda>c. (of_char c :: nat) \<in> {48..57}) s
      then (if int_max_str_digits < length s then Inl ValueError
            else Inr (decimal_value 0 s))
      else Inl ValueError)"

function str_nat :: "nat \<Rightarrow> string" where
  \<comment> \<open>how an f-string prints a non-negative integer\<close>
  "str_nat n = (if n < 10 then [''0123456789'' ! n] else str_nat (n div 10) @ [''0123456789'' ! (n mod 10)])"
  by pat_completeness auto

termination
  by (relation "measure id") auto

declare str_nat.simps [simp del]

definition py_str :: "nat \<Rightarrow> error + string" where
  \<comment> \<open>a non-negative integer formatted by an f-string, as \<^verbatim>\<open>next_page_num\<close> is at 246,
      249 and 251: \<^verbatim>\<open>ValueError\<close> when the numeral has more digits than the limit\<close>
  "py_str n =
     (if int_max_str_digits < length (str_nat n) then Inl ValueError else Inr (str_nat n))"

section \<open>Email from text\<close>

fun first_email_token :: "string list \<Rightarrow> string option" where
  \<comment> \<open>the loop of \<^verbatim>\<open>extract_email_from_text\<close> over the tokens\<close>
  "first_email_token [] = None"
| "first_email_token (token # tokens) =
     (if py_in ''@stanford.edu'' token then Some (py_strip_chars '',;()[]'' (py_strip token))
      else first_email_token tokens)"

definition extract_email_from_text :: "string \<Rightarrow> string option" where
  "extract_email_from_text text = first_email_token (py_split text)"

section \<open>The browser session\<close>

text \<open>
  Selenium's driver, the elements it hands out and the clock are the program's
  environment. A state \<open>'w\<close> of the session holds the pages, the windows and the clock.
  A query reads the state and returns a value or raises; an action returns the next
  state or raises, and an action that raises is taken to leave the session as it was.
  Every call the source makes on \<^verbatim>\<open>driver\<close>, on an element or on \<^verbatim>\<open>time\<close> is one field.
\<close>

type_synonym elem = nat

type_synonym handle = string

datatype By = CSS_SELECTOR | XPATH | TAG_NAME

record 'w driver =
  find_elements :: "'w \<Rightarrow> By \<Rightarrow> string \<Rightarrow> error + elem list"
  find_element :: "'w \<Rightarrow> By \<Rightarrow> string \<Rightarrow> error + elem"
  el_find_elements :: "'w \<Rightarrow> elem \<Rightarrow> By \<Rightarrow> string \<Rightarrow> error + elem list"
  el_find_element :: "'w \<Rightarrow> elem \<Rightarrow> By \<Rightarrow> string \<Rightarrow> error + elem"
  el_text :: "'w \<Rightarrow> elem \<Rightarrow> error + string"
  el_tag_name :: "'w \<Rightarrow> elem \<Rightarrow> error + string"
  el_get_attribute :: "'w \<Rightarrow> elem \<Rightarrow> string \<Rightarrow> error + string option"
  el_is_displayed :: "'w \<Rightarrow> elem \<Rightarrow> error + bool"
  el_is_enabled :: "'w \<Rightarrow> elem \<Rightarrow> error + bool"
  el_click :: "'w \<Rightarrow> elem \<Rightarrow> error + 'w"
  current_window_handle :: "'w \<Rightarrow> error + handle"
  window_handles :: "'w \<Rightarrow> error + handle list"
  execute_script :: "'w \<Rightarrow> string \<Rightarrow> string \<Rightarrow> error + 'w"
  switch_to_window :: "'w \<Rightarrow> handle \<Rightarrow> error + 'w"
  close :: "'w \<Rightarrow> error + 'w"
  wait_until_present :: "'w \<Rightarrow> int \<Rightarrow> string \<Rightarrow> error + 'w"
  time_time :: "'w \<Rightarrow> real"
  time_sleep :: "'w \<Rightarrow> real \<Rightarrow> 'w"

text \<open>
  \<open>wait_until_present d w t sel\<close> is
  \<^verbatim>\<open>WebDriverWait(driver, t).until(EC.presence_of_element_located((By.CSS_SELECTOR, sel)))\<close>.
  The module's globals that \<^verbatim>\<open>main\<close> sets from the command line are a configuration.
\<close>

record config =
  default_wait_seconds :: int
  allow_profile_nav :: bool

definition PAGE_PAUSE_SECONDS :: real where
  "PAGE_PAUSE_SECONDS = 1.0"

record PersonRow =
  name :: string
  email :: string
  affiliation :: string
  department :: string

section \<open>Card locator\<close>

definition card_candidates :: "string list" where
  "card_candidates =
     [''.t-Card'', ''.t-ContentCard'', ''.t-ContentRow'', ''.t-ContentRow-wrap'',
      ''.t-ContentRow-content'', ''.t-SearchResults-item'', ''.t-Region .t-Card'',
      ''li.a-IRR-tableRow'']"

fun best_cards :: "'w driver \<Rightarrow> 'w \<Rightarrow> string list \<Rightarrow> elem list \<Rightarrow> error + elem list" where
  \<comment> \<open>the loop of \<^verbatim>\<open>find_cards\<close>: the candidates still to try and \<^verbatim>\<open>best_els\<close>\<close>
  "best_cards d w [] best_els = Inr best_els"
| "best_cards d w (sel # sels) best_els =
     (case find_elements d w CSS_SELECTOR sel of
        Inl e \<Rightarrow> Inl e
      | Inr els \<Rightarrow>
          best_cards d w sels (if length els > length best_els then els else best_els))"

definition find_cards :: "'w driver \<Rightarrow> 'w \<Rightarrow> error + elem list" where
  "find_cards d w = best_cards d w card_candidates []"

definition safe_text :: "'w driver \<Rightarrow> 'w \<Rightarrow> elem \<Rightarrow> string" where
  "safe_text d w el = (case el_text d w el of Inl e \<Rightarrow> [] | Inr t \<Rightarrow> t)"

section \<open>Record extractor\<close>

fun first_found :: "'w driver \<Rightarrow> 'w \<Rightarrow> elem \<Rightarrow> string list \<Rightarrow> elem option" where
  \<comment> \<open>\<^verbatim>\<open>for sel in [...]: try: x = el.find_element(By.CSS_SELECTOR, sel); break\<close>
      \<^verbatim>\<open>except Exception: continue\<close>\<close>
  "first_found d w el [] = None"
| "first_found d w el (sel # sels) =
     (case el_find_element d w el CSS_SELECTOR sel of
        Inr candidate \<Rightarrow> Some candidate
      | Inl e \<Rightarrow> first_found d w el sels)"

definition scope_selectors :: "string list" where
  "scope_selectors = [''.t-ContentRow-wrap'', ''.t-Card-body'', ''.t-Card'']"

definition name_selectors :: "string list" where
  "name_selectors =
     [''a.t-Card-title'', ''.t-Card-title a'', ''.t-ContentCard-title a'',
      ''.t-ContentRow-content h3 a'', ''.t-ContentRow-content h3'', ''h3 a'', ''h3'', ''a'']"

definition scope_el :: "'w driver \<Rightarrow> 'w \<Rightarrow> elem \<Rightarrow> elem" where
  "scope_el d w card_el =
     (case first_found d w card_el scope_selectors of Some candidate \<Rightarrow> candidate | None \<Rightarrow> card_el)"

definition stripped_lines :: "string \<Rightarrow> string list" where
  \<comment> \<open>\<^verbatim>\<open>[ln.strip() for ln in t.splitlines() if ln.strip()]\<close>\<close>
  "stripped_lines t = filter (\<lambda>line. line \<noteq> []) (map py_strip (py_splitlines t))"

definition text_lines :: "'w driver \<Rightarrow> 'w \<Rightarrow> elem \<Rightarrow> string list" where
  "text_lines d w card_el = stripped_lines (safe_text d w (scope_el d w card_el))"

definition name_el :: "'w driver \<Rightarrow> 'w \<Rightarrow> elem \<Rightarrow> elem option" where
  "name_el d w card_el = first_found d w (scope_el d w card_el) name_selectors"

definition card_name :: "'w driver \<Rightarrow> 'w \<Rightarrow> elem option \<Rightarrow> string \<Rightarrow> error + string" where
  \<comment> \<open>\<^verbatim>\<open>name_el.text.strip() if name_el and name_el.text else text_lines[0]\<close>\<close>
  "card_name d w title first_line =
     (case title of
        None \<Rightarrow> Inr first_line
      | Some el \<Rightarrow>
          (case el_text d w el of
             Inl e \<Rightarrow> Inl e
           | Inr t \<Rightarrow> if t \<noteq> [] then Inr (py_strip t) else Inr first_line))"

definition desc_selector :: string where
  "desc_selector = ''.t-ContentRow-body .t-ContentRow-desc''"

definition mailto_selector :: string where
  "mailto_selector = ''a[href^='mailto:']''"

definition is_role_line :: "string \<Rightarrow> bool" where
  "is_role_line line =
     (py_in '' - '' line \<or> py_in ''Student'' line \<or> py_in ''Faculty'' line \<or> py_in ''Staff'' line)"

definition department_affiliation ::
  "'w driver \<Rightarrow> 'w \<Rightarrow> elem \<Rightarrow> string list \<Rightarrow> string \<times> string" where
  \<comment> \<open>lines 157 to 176: the pair (department, affiliation)\<close>
  "department_affiliation d w scope rest =
     (let (dept, affil) =
        (case el_find_element d w scope CSS_SELECTOR desc_selector of
           Inr desc_el \<Rightarrow>
             (let desc_lines = stripped_lines (safe_text d w desc_el)
              in (if desc_lines \<noteq> [] then desc_lines ! 0 else [],
                  if length desc_lines > 1 then desc_lines ! 1 else []))
         | Inl e \<Rightarrow>
             (if rest \<noteq> [] then rest ! 0 else [], if length rest > 1 then rest ! 1 else []))
      in (dept, case find is_role_line (take 2 (drop 1 rest)) of Some line \<Rightarrow> line | None \<Rightarrow> affil))"

fun mailto_scan :: "'w driver \<Rightarrow> 'w \<Rightarrow> elem list \<Rightarrow> error + string option" where
  \<comment> \<open>the loop over the \<^verbatim>\<open>mailto:\<close> anchors: the first non-empty address\<close>
  "mailto_scan d w [] = Inr None"
| "mailto_scan d w (a # as) =
     (case el_get_attribute d w a ''href'' of
        Inl e \<Rightarrow> Inl e
      | Inr h \<Rightarrow>
          (let href = (case h of None \<Rightarrow> [] | Some v \<Rightarrow> v)
           in if py_in ''mailto:'' href
              then (let addr = py_strip (after_first ''mailto:'' href)
                    in if addr \<noteq> [] then Inr (Some addr) else mailto_scan d w as)
              else mailto_scan d w as))"

definition truthy :: "string option \<Rightarrow> bool" where
  \<comment> \<open>Python's truth value of an \<^verbatim>\<open>Optional[str]\<close>\<close>
  "truthy v = (case v of None \<Rightarrow> False | Some t \<Rightarrow> t \<noteq> [])"

definition card_mailto :: "'w driver \<Rightarrow> 'w \<Rightarrow> elem \<Rightarrow> string option" where
  \<comment> \<open>lines 179 to 189; \<^verbatim>\<open>None\<close> also stands for the empty address, which
      \<^verbatim>\<open>if not email\<close> treats alike\<close>
  "card_mailto d w scope =
     (case el_find_elements d w scope CSS_SELECTOR mailto_selector of
        Inl e \<Rightarrow> None
      | Inr mail_links \<Rightarrow> (case mailto_scan d w mail_links of Inl e \<Rightarrow> None | Inr r \<Rightarrow> r))"

section \<open>Email resolver: the profile page\<close>

fun wait_for_any_selector :: "'w driver \<Rightarrow> 'w \<Rightarrow> string list \<Rightarrow> int \<Rightarrow> error + 'w" where
  "wait_for_any_selector d w [] timeout = Inl TimeoutException"
| "wait_for_any_selector d w (selector # selectors) timeout =
     (case wait_until_present d w timeout selector of
        Inr w' \<Rightarrow> Inr w'
      | Inl e \<Rightarrow>
          if e = TimeoutException then wait_for_any_selector d w selectors timeout else Inl e)"

definition profile_lookup :: "config \<Rightarrow> 'w driver \<Rightarrow> 'w \<Rightarrow> (error + string option) \<times> 'w" where
  \<comment> \<open>the body of the \<^verbatim>\<open>try\<close> in \<^verbatim>\<open>get_email_from_profile\<close>\<close>
  "profile_lookup cfg d w =
     (case wait_for_any_selector d w [mailto_selector, ''.t-Region, body'']
             (default_wait_seconds cfg) of
        Inl e \<Rightarrow> (Inl e, w)
      | Inr w1 \<Rightarrow>
          (case find_elements d w1 CSS_SELECTOR mailto_selector of
             Inl e \<Rightarrow> (Inl e, w1)
           | Inr mailtos \<Rightarrow>
               (case mailto_scan d w1 mailtos of
                  Inl e \<Rightarrow> (Inl e, w1)
                | Inr (Some addr) \<Rightarrow> (Inr (Some addr), w1)
                | Inr None \<Rightarrow>
                    (case find_element d w1 TAG_NAME ''body'' of
                       Inl e \<Rightarrow> (Inl e, w1)
                     | Inr body \<Rightarrow> (Inr (extract_email_from_text (safe_text d w1 body)), w1)))))"

definition get_email_from_profile ::
  "config \<Rightarrow> 'w driver \<Rightarrow> 'w \<Rightarrow> string \<Rightarrow> (error + string option) \<times> 'w" where
  "get_email_from_profile cfg d w detail_href =
     (case current_window_handle d w of
        Inl e \<Rightarrow> (Inl e, w)
      | Inr original_window \<Rightarrow>
     (case execute_script d w ''window.open(arguments[0], '_blank');'' detail_href of
        Inl e \<Rightarrow> (Inl e, w)
      | Inr w1 \<Rightarrow>
     (case window_handles d w1 of
        Inl e \<Rightarrow> (Inl e, w1)
      | Inr hs \<Rightarrow>
     if hs = [] then (Inl IndexError, w1) else
     (case switch_to_window d w1 (last hs) of
        Inl e \<Rightarrow> (Inl e, w1)
      | Inr w2 \<Rightarrow>
     (let (r, w3) = profile_lookup cfg d w2 in
     (case close d w3 of
        Inl e \<Rightarrow> (Inl e, w3)
      | Inr w4 \<Rightarrow>
     (case switch_to_window d w4 original_window of
        Inl e \<Rightarrow> (Inl e, w4)
      | Inr w5 \<Rightarrow> (r, w5))))))))"

definition profile_email ::
  "config \<Rightarrow> 'w driver \<Rightarrow> 'w \<Rightarrow> elem option \<Rightarrow> string option \<Rightarrow> (error + string option) \<times> 'w" where
  \<comment> \<open>lines 199 to 206\<close>
  "profile_email cfg d w title found =
     (if allow_profile_nav cfg \<and> \<not> truthy found then
        (case title of
           None \<Rightarrow> (Inr found, w)
         | Some el \<Rightarrow>
             (case el_get_attribute d w el ''href'' of
                Inl e \<Rightarrow> (Inl e, w)
              | Inr href \<Rightarrow>
                  (case href of
                     None \<Rightarrow> (Inr found, w)
                   | Some target \<Rightarrow>
                       if target = [] then (Inr found, w)
                       else (case get_email_from_profile cfg d w target of
                               (Inl e, w') \<Rightarrow> (Inr None, w')
                             | (Inr r, w') \<Rightarrow> (Inr r, w')))))
      else (Inr found, w))"

definition parse_card ::
  "config \<Rightarrow> 'w driver \<Rightarrow> 'w \<Rightarrow> elem \<Rightarrow> (error + PersonRow option) \<times> 'w" where
  "parse_card cfg d w card_el =
     (let scope = scope_el d w card_el;
          lines = stripped_lines (safe_text d w scope)
      in case lines of
           [] \<Rightarrow> (Inr None, w)
         | first_line # other_lines \<Rightarrow>
             (let title = first_found d w scope name_selectors
              in case card_name d w title first_line of
                   Inl e \<Rightarrow> (Inl e, w)
                 | Inr nm \<Rightarrow>
                     (let rest = filter (\<lambda>line. line \<noteq> nm) lines;
                          (dept, affil) = department_affiliation d w scope rest;
                          linked = card_mailto d w scope;
                          found = (if truthy linked then linked
                                   else extract_email_from_text (py_join [CHR 0x0A] lines))
                      in case profile_email cfg d w title found of
                           (Inl e, w') \<Rightarrow> (Inl e, w')
                         | (Inr mail, w') \<Rightarrow>
                             (Inr (Some \<lparr>name = nm,
                                         email = (if truthy mail then the mail else []),
                                         affiliation = affil,
                                         department = dept\<rparr>), w'))))"

section \<open>Pagination controller\<close>

definition candidates_active :: "string list" where
  "candidates_active =
     [''strong[aria-current='page']'', ''.t-Report-paginationText strong'',
      ''.t-Report-paginationLink.is-active'', ''.t-Pagination-item.is-active'',
      ''.t-Report-pagination b'', ''.t-Report-pagination span.current'',
      ''table.a-IRR-pagination td span'']"

definition next_candidates :: "string list" where
  "next_candidates =
     [''a[aria-label='Next']'', ''.t-Report-paginationLink--next'', ''a[title='Next']'']"

fun element_texts :: "'w driver \<Rightarrow> 'w \<Rightarrow> elem list \<Rightarrow> error + string list" where
  \<comment> \<open>\<^verbatim>\<open>[e.text for e in found]\<close>, which the debug line at 235 evaluates\<close>
  "element_texts d w [] = Inr []"
| "element_texts d w (e # es) =
     (case el_text d w e of
        Inl x \<Rightarrow> Inl x
      | Inr t \<Rightarrow> (case element_texts d w es of Inl x \<Rightarrow> Inl x | Inr ts \<Rightarrow> Inr (t # ts)))"

fun find_active_page_els :: "'w driver \<Rightarrow> 'w \<Rightarrow> string list \<Rightarrow> error + elem list" where
  \<comment> \<open>lines 230 to 236\<close>
  "find_active_page_els d w [] = Inr []"
| "find_active_page_els d w (sel # sels) =
     (case find_elements d w CSS_SELECTOR sel of
        Inl x \<Rightarrow> Inl x
      | Inr found \<Rightarrow>
          if found \<noteq> []
          then (case element_texts d w found of Inl x \<Rightarrow> Inl x | Inr ts \<Rightarrow> Inr found)
          else find_active_page_els d w sels)"

definition next_link_xpath :: "string \<Rightarrow> string" where
  \<comment> \<open>the f-string at 249, given \<^verbatim>\<open>next_page_num\<close> as the f-string formats it\<close>
  "next_link_xpath next_page_num =
     ''//a[contains(@class, 't-Report-paginationLink') and normalize-space(text())='' @
     [CHR 0x27] @ next_page_num @ [CHR 0x27] @ '']''"

definition generic_xpath :: "string \<Rightarrow> string" where
  \<comment> \<open>the f-string at 251\<close>
  "generic_xpath next_page_num =
     ''//*[contains(@class, 't-Report-pagination')]//a[normalize-space(text())='' @
     [CHR 0x27] @ next_page_num @ [CHR 0x27] @ '']''"

fun first_link :: "'w driver \<Rightarrow> 'w \<Rightarrow> string list \<Rightarrow> error + elem option" where
  \<comment> \<open>the loop at 253 up to the click: \<^verbatim>\<open>next_links[0]\<close> of the first XPath that finds a link\<close>
  "first_link d w [] = Inr None"
| "first_link d w (xp # xps) =
     (case find_elements d w XPATH xp of
        Inl x \<Rightarrow> Inl x
      | Inr next_links \<Rightarrow>
          (case next_links of [] \<Rightarrow> first_link d w xps | l # ls \<Rightarrow> Inr (Some l)))"

definition numeric_target :: "'w driver \<Rightarrow> 'w \<Rightarrow> error + elem option" where
  \<comment> \<open>the \<^verbatim>\<open>try\<close> block of \<^verbatim>\<open>click_next_if_available\<close> up to the click: the link it
      is about to click, \<^verbatim>\<open>None\<close> when it falls through, or the exception it raises\<close>
  "numeric_target d w =
     (case find_active_page_els d w candidates_active of
        Inl x \<Rightarrow> Inl x
      | Inr active_page_els \<Rightarrow>
          (case active_page_els of
             [] \<Rightarrow> Inr None
           | a # as \<Rightarrow>
               (case el_text d w a of
                  Inl x \<Rightarrow> Inl x
                | Inr t \<Rightarrow>
                    (let current_page_text = py_strip t
                     in if py_isdigit current_page_text
                        then (case py_int current_page_text of
                                Inl x \<Rightarrow> Inl x
                              | Inr n \<Rightarrow>
                                  (case py_str (n + 1) of
                                     Inl x \<Rightarrow> Inl x
                                   | Inr next_page_num \<Rightarrow>
                                       first_link d w [next_link_xpath next_page_num,
                                                       generic_xpath next_page_num]))
                        else Inr None))))"

fun click_first_button :: "'w driver \<Rightarrow> 'w \<Rightarrow> elem list \<Rightarrow> 'w option" where
  \<comment> \<open>the loop at 274: the session after the click and the pause, or \<^verbatim>\<open>None\<close> when no
      button of the list was clicked\<close>
  "click_first_button d w [] = None"
| "click_first_button d w (btn # btns) =
     (case el_is_displayed d w btn of
        Inl x \<Rightarrow> click_first_button d w btns
      | Inr displayed \<Rightarrow>
          if \<not> displayed then click_first_button d w btns
          else (case el_is_enabled d w btn of
                  Inl x \<Rightarrow> click_first_button d w btns
                | Inr enabled \<Rightarrow>
                    if \<not> enabled then click_first_button d w btns
                    else (case el_click d w btn of
                            Inl x \<Rightarrow> click_first_button d w btns
                          | Inr w' \<Rightarrow> Some (time_sleep d w' PAGE_PAUSE_SECONDS))))"

fun next_button_loop :: "'w driver \<Rightarrow> 'w \<Rightarrow> string list \<Rightarrow> (error + bool) \<times> 'w" where
  \<comment> \<open>lines 270 to 286\<close>
  "next_button_loop d w [] = (Inr False, w)"
| "next_button_loop d w (sel # sels) =
     (case find_elements d w CSS_SELECTOR sel of
        Inl x \<Rightarrow> (Inl x, w)
      | Inr btns \<Rightarrow>
          (case click_first_button d w btns of
             Some w' \<Rightarrow> (Inr True, w')
           | None \<Rightarrow> next_button_loop d w sels))"

definition click_next_if_available :: "'w driver \<Rightarrow> 'w \<Rightarrow> (error + bool) \<times> 'w" where
  "click_next_if_available d w =
     (case numeric_target d w of
        Inr (Some next_link) \<Rightarrow>
          (case el_click d w next_link of
             Inr w' \<Rightarrow> (Inr True, time_sleep d w' PAGE_PAUSE_SECONDS)
           | Inl x \<Rightarrow> next_button_loop d w next_candidates)
      | Inr None \<Rightarrow> next_button_loop d w next_candidates
      | Inl x \<Rightarrow> next_button_loop d w next_candidates)"

section \<open>Session driver\<close>

definition poll_cards :: "'w driver \<Rightarrow> 'w \<Rightarrow> elem list option" where
  \<comment> \<open>lines 300 to 308: the cards when the loop breaks, \<^verbatim>\<open>None\<close> when it goes on to the pause\<close>
  "poll_cards d w =
     (case find_cards d w of
        Inl x \<Rightarrow> None
      | Inr cards \<Rightarrow>
          (case cards of
             [] \<Rightarrow> None
           | c # cs \<Rightarrow> (case el_tag_name d w c of Inl x \<Rightarrow> None | Inr t \<Rightarrow> Some cards)))"

partial_function (option) discover_loop ::
  "'w driver \<Rightarrow> int \<Rightarrow> real \<Rightarrow> 'w \<Rightarrow> (elem list \<times> 'w) option" where
  \<comment> \<open>the loop at 299; \<^verbatim>\<open>cards\<close> is empty whenever its condition is tested\<close>
  "discover_loop d wait start_time w =
     (if time_time d w - start_time < real_of_int wait
      then (case poll_cards d w of
              Some cards \<Rightarrow> Some (cards, w)
            | None \<Rightarrow> discover_loop d wait start_time (time_sleep d w 1))
      else Some ([], w))"

declare discover_loop.simps [code]

definition discover :: "config \<Rightarrow> 'w driver \<Rightarrow> 'w \<Rightarrow> (elem list \<times> 'w) option" where
  \<comment> \<open>lines 297 to 309\<close>
  "discover cfg d w = discover_loop d (default_wait_seconds cfg) (time_time d w) w"

definition csv_row :: "PersonRow \<Rightarrow> string list" where
  "csv_row r = [name r, email r, affiliation r, department r]"

fun extract_cards ::
  "config \<Rightarrow> 'w driver \<Rightarrow> 'w \<Rightarrow> elem list \<Rightarrow> string list list \<Rightarrow>
   error option \<times> string list list \<times> 'w" where
  \<comment> \<open>the loop at 315 over the cards of a page: the exception that ended it, if any, the
      rows of the output file and the session\<close>
  "extract_cards cfg d w [] sink = (None, sink, w)"
| "extract_cards cfg d w (c # cs) sink =
     (case parse_card cfg d w c of
        (Inl x, w') \<Rightarrow> (Some x, sink, w')
      | (Inr None, w') \<Rightarrow> extract_cards cfg d w' cs sink
      | (Inr (Some r), w') \<Rightarrow> extract_cards cfg d w' cs (sink @ [csv_row r]))"

partial_function (option) scrape_loop ::
  "config \<Rightarrow> 'w driver \<Rightarrow> 'w \<Rightarrow> string list list \<Rightarrow> nat \<Rightarrow>
   (error option \<times> string list list \<times> 'w \<times> nat) option" where
  \<comment> \<open>the loop at 295: the exception that ended it, if any, the rows written, the session
      and \<^verbatim>\<open>page_index\<close>; \<^verbatim>\<open>None\<close> when the loop never ends\<close>
  "scrape_loop cfg d w sink page_index =
     (case discover cfg d w of
        None \<Rightarrow> None
      | Some (cards, w1) \<Rightarrow>
          (case extract_cards cfg d w1 cards sink of
             (Some x, sink1, w2) \<Rightarrow> Some (Some x, sink1, w2, page_index)
           | (None, sink1, w2) \<Rightarrow>
               (case click_next_if_available d w2 of
                  (Inl x, w3) \<Rightarrow> Some (Some x, sink1, w3, page_index)
                | (Inr advanced, w3) \<Rightarrow>
                    if advanced
                    then scrape_loop cfg d (time_sleep d w3 1) sink1 (page_index + 1)
                    else Some (None, sink1, w3, page_index))))"

declare scrape_loop.simps [code]

definition scrape_results ::
  "config \<Rightarrow> 'w driver \<Rightarrow> 'w \<Rightarrow> (error option \<times> string list list \<times> 'w \<times> nat) option" where
  \<comment> \<open>the output file is the list of its rows; writing a row does not fail\<close>
  "scrape_results cfg d w =
     scrape_loop cfg d w [[''name'', ''email'', ''affiliation'', ''department'']] 1"

section \<open>Notions used to state the properties\<close>

text \<open>
  The definitions of this section are not taken from the source. Those named \<open>spec_\<close>
  follow the wording of the specification where the source does something else; the
  others name what the statements below talk about.
\<close>

definition spec_trailing_strip :: "string \<Rightarrow> string \<Rightarrow> string" where
  \<comment> \<open>the specification's reading of the stripping: trailing characters only\<close>
  "spec_trailing_strip chars s = rev (dropWhile (\<lambda>c. c \<in> set chars) (rev s))"

definition line_or_empty :: "string list \<Rightarrow> nat \<Rightarrow> string" where
  \<comment> \<open>the \<open>i\<close>-th line, or the empty string when there are not that many\<close>
  "line_or_empty ls i = (if i < length ls then ls ! i else [])"

definition spec_department_affiliation ::
  "'w driver \<Rightarrow> 'w \<Rightarrow> elem \<Rightarrow> string list \<Rightarrow> string \<times> string" where
  \<comment> \<open>department and affiliation as the specification words them: the description element
      counts only when it has a sub-line, the remaining lines stand in otherwise, and the
      first two remaining lines are searched for a role\<close>
  "spec_department_affiliation d w scope rest =
     (let guess =
        (case el_find_element d w scope CSS_SELECTOR desc_selector of
           Inr desc_el \<Rightarrow>
             (let desc_lines = stripped_lines (safe_text d w desc_el)
              in if desc_lines \<noteq> []
                 then (line_or_empty desc_lines 0, line_or_empty desc_lines 1)
                 else (line_or_empty rest 0, line_or_empty rest 1))
         | Inl e \<Rightarrow> (line_or_empty rest 0, line_or_empty rest 1))
      in (fst guess, case find is_role_line (take 2 rest) of Some l \<Rightarrow> l | None \<Rightarrow> snd guess))"

fun spec_cascade_text :: "'w driver \<Rightarrow> 'w \<Rightarrow> elem \<Rightarrow> string list \<Rightarrow> string option" where
  \<comment> \<open>the name as the specification words it: the first non-empty trimmed text that the
      selectors of the cascade produce, in their order\<close>
  "spec_cascade_text d w scope [] = None"
| "spec_cascade_text d w scope (sel # sels) =
     (case el_find_element d w scope CSS_SELECTOR sel of
        Inl e \<Rightarrow> spec_cascade_text d w scope sels
      | Inr el \<Rightarrow>
          (case el_text d w el of
             Inl e \<Rightarrow> spec_cascade_text d w scope sels
           | Inr t \<Rightarrow>
               if py_strip t \<noteq> [] then Some (py_strip t)
               else spec_cascade_text d w scope sels))"

definition spec_name :: "'w driver \<Rightarrow> 'w \<Rightarrow> elem \<Rightarrow> string" where
  "spec_name d w c =
     (case spec_cascade_text d w (scope_el d w c) name_selectors of
        Some t \<Rightarrow> t
      | None \<Rightarrow> hd (text_lines d w c))"

definition next_control :: "'w driver \<Rightarrow> 'w \<Rightarrow> elem \<Rightarrow> bool" where
  \<comment> \<open>a visible and enabled generic Next control: an element that one of the three Next
      selectors finds and that is displayed and enabled\<close>
  "next_control d w btn =
     ((\<exists>sel\<in>set next_candidates.
         case find_elements d w CSS_SELECTOR sel of Inr btns \<Rightarrow> btn \<in> set btns | Inl e \<Rightarrow> False)
      \<and> el_is_displayed d w btn = Inr True \<and> el_is_enabled d w btn = Inr True)"

fun found_by_next_lookups :: "'w driver \<Rightarrow> 'w \<Rightarrow> string list \<Rightarrow> elem \<Rightarrow> bool" where
  \<comment> \<open>an element that one of the lookups for the given selectors finds, the lookups made
      in the order of the list, before any of them raises\<close>
  "found_by_next_lookups d w [] btn = False"
| "found_by_next_lookups d w (sel # sels) btn =
     (case find_elements d w CSS_SELECTOR sel of
        Inl e \<Rightarrow> False
      | Inr btns \<Rightarrow> btn \<in> set btns \<or> found_by_next_lookups d w sels btn)"

definition reached_next_control :: "'w driver \<Rightarrow> 'w \<Rightarrow> elem \<Rightarrow> bool" where
  \<comment> \<open>a visible and enabled generic Next control that the lookups find before any of them
      raises\<close>
  "reached_next_control d w btn =
     (found_by_next_lookups d w next_candidates btn
      \<and> el_is_displayed d w btn = Inr True \<and> el_is_enabled d w btn = Inr True)"

definition clicks :: "'w driver \<Rightarrow> 'w \<Rightarrow> elem \<Rightarrow> bool" where
  \<comment> \<open>the click on the element succeeds\<close>
  "clicks d w el = (case el_click d w el of Inr w1 \<Rightarrow> True | Inl e \<Rightarrow> False)"

definition decimal_digits :: "string \<Rightarrow> bool" where
  \<comment> \<open>a non-empty string of the digits 0 to 9\<close>
  "decimal_digits s = (s \<noteq> [] \<and> list_all (\<lambda>c. (of_char c :: nat) \<in> {48..57}) s)"

definition pause :: "'w driver \<Rightarrow> 'w \<Rightarrow> 'w" where
  \<comment> \<open>\<^verbatim>\<open>time.sleep(1)\<close>, the only step of the Discover loop that changes the session\<close>
  "pause d v = time_sleep d v 1"

section \<open>A simulated session\<close>

text \<open>
  The examples below run the functions on a small simulated browser: a main window that
  shows a page, the pages that successive clicks load, and a profile page for any window
  that a script opens. Elements are numbers; a page lists what its queries find.
\<close>

record page =
  found :: "(string \<times> elem list) list"
  nested :: "((elem \<times> string) \<times> elem list) list"
  texts :: "(elem \<times> string) list"
  hrefs :: "(elem \<times> string) list"
  hidden :: "elem list"
  disabled :: "elem list"
  stale :: "elem list"
  blocked :: "elem list"

record session =
  dead :: bool
  shown :: page
  later :: "page list"
  profile :: page
  clicked :: "elem list"
  clock :: real
  ready_at :: real
  windows :: "handle list"
  focus :: handle
  close_fails :: bool

definition blank_page :: page where
  "blank_page = \<lparr>found = [], nested = [], texts = [], hrefs = [], hidden = [], disabled = [],
                  stale = [], blocked = []\<rparr>"

definition blank :: session where
  "blank = \<lparr>dead = False, shown = blank_page, later = [], profile = blank_page, clicked = [],
             clock = 0, ready_at = 0, windows = [''main''], focus = ''main'',
             close_fails = False\<rparr>"

definition assoc :: "('k \<times> 'v list) list \<Rightarrow> 'k \<Rightarrow> 'v list" where
  "assoc kvs k = (case map_of kvs k of None \<Rightarrow> [] | Some v \<Rightarrow> v)"

definition alive :: "session \<Rightarrow> bool" where
  "alive w = (\<not> dead w \<and> focus w \<in> set (windows w))"

definition in_view :: "session \<Rightarrow> page" where
  \<comment> \<open>the page of the window that has the focus; empty until it has rendered\<close>
  "in_view w =
     (if focus w = ''main'' then (if clock w < ready_at w then blank_page else shown w)
      else profile w)"

definition guarded :: "session \<Rightarrow> elem \<Rightarrow> 'a \<Rightarrow> error + 'a" where
  "guarded w el v =
     (if \<not> alive w then Inl NoSuchWindowException
      else if el \<in> set (stale (in_view w)) then Inl StaleElementReferenceException
      else Inr v)"

definition first_of :: "elem list \<Rightarrow> error + elem" where
  "first_of els = (case els of [] \<Rightarrow> Inl NoSuchElementException | e # es \<Rightarrow> Inr e)"

definition navigate :: "session \<Rightarrow> elem \<Rightarrow> session" where
  "navigate w el =
     (case later w of
        [] \<Rightarrow> w\<lparr>clicked := clicked w @ [el]\<rparr>
      | p # ps \<Rightarrow> w\<lparr>shown := p, later := ps, clicked := clicked w @ [el]\<rparr>)"

definition sim :: "session driver" where
  "sim =
     \<lparr>find_elements = (\<lambda>w b sel.
         if alive w then Inr (assoc (found (in_view w)) sel) else Inl NoSuchWindowException),
      find_element = (\<lambda>w b sel.
         if alive w then first_of (assoc (found (in_view w)) sel)
         else Inl NoSuchWindowException),
      el_find_elements = (\<lambda>w el b sel. guarded w el (assoc (nested (in_view w)) (el, sel))),
      el_find_element = (\<lambda>w el b sel.
         case guarded w el (assoc (nested (in_view w)) (el, sel)) of
           Inl x \<Rightarrow> Inl x
         | Inr els \<Rightarrow> first_of els),
      el_text = (\<lambda>w el. guarded w el (assoc (texts (in_view w)) el)),
      el_tag_name = (\<lambda>w el. guarded w el ''div''),
      el_get_attribute = (\<lambda>w el a.
         guarded w el (if a = ''href'' then map_of (hrefs (in_view w)) el else None)),
      el_is_displayed = (\<lambda>w el. guarded w el (el \<notin> set (hidden (in_view w)))),
      el_is_enabled = (\<lambda>w el. guarded w el (el \<notin> set (disabled (in_view w)))),
      el_click = (\<lambda>w el.
         case guarded w el () of
           Inl x \<Rightarrow> Inl x
         | Inr u \<Rightarrow>
             if el \<in> set (blocked (in_view w)) then Inl ElementClickInterceptedException
             else Inr (navigate w el)),
      current_window_handle = (\<lambda>w.
         if alive w then Inr (focus w) else Inl NoSuchWindowException),
      window_handles = (\<lambda>w. if dead w then Inl WebDriverException else Inr (windows w)),
      execute_script = (\<lambda>w script arg.
         if alive w then Inr (w\<lparr>windows := windows w @ [''tab'']\<rparr>)
         else Inl NoSuchWindowException),
      switch_to_window = (\<lambda>w h.
         if \<not> dead w \<and> h \<in> set (windows w) then Inr (w\<lparr>focus := h\<rparr>)
         else Inl NoSuchWindowException),
      close = (\<lambda>w.
         if alive w \<and> \<not> close_fails w
         then Inr (w\<lparr>windows := removeAll (focus w) (windows w)\<rparr>)
         else Inl NoSuchWindowException),
      wait_until_present = (\<lambda>w t sel.
         if \<not> alive w then Inl NoSuchWindowException
         else if assoc (found (in_view w)) sel = [] then Inl TimeoutException
         else Inr w),
      time_time = clock,
      time_sleep = (\<lambda>w secs. w\<lparr>clock := clock w + secs\<rparr>)\<rparr>"

definition default_config :: config where
  \<comment> \<open>the module's defaults: \<^verbatim>\<open>DEFAULT_WAIT_SECONDS = 20\<close>, \<^verbatim>\<open>ALLOW_PROFILE_NAV = False\<close>\<close>
  "default_config = \<lparr>default_wait_seconds = 20, allow_profile_nav = False\<rparr>"

definition short_wait :: config where
  \<comment> \<open>\<^verbatim>\<open>--wait 2\<close>\<close>
  "short_wait = \<lparr>default_wait_seconds = 2, allow_profile_nav = False\<rparr>"

definition follow_profile :: config where
  \<comment> \<open>\<^verbatim>\<open>--follow-profile\<close>\<close>
  "follow_profile = \<lparr>default_wait_seconds = 20, allow_profile_nav = True\<rparr>"

definition cards_page :: session where
  \<comment> \<open>two \<^verbatim>\<open>.t-Card\<close> elements, two \<^verbatim>\<open>.t-ContentRow\<close> elements, one of another class\<close>
  "cards_page =
     blank\<lparr>shown := blank_page\<lparr>found :=
       [(''.t-ContentRow-content'', [5]), (''.t-ContentRow'', [3, 4]), (''.t-Card'', [1, 2])]\<rparr>\<rparr>"

definition filler_page :: session where
  \<comment> \<open>two cards: one whose text is blank, one that reads \<^verbatim>\<open>Jane Doe\<close>\<close>
  "filler_page =
     blank\<lparr>shown := blank_page\<lparr>found := [(''.t-Card'', [7, 8])],
       texts := [(7, [CHR 0x20, CHR 0x0A, CHR 0x20]), (8, ''Jane Doe'')]\<rparr>\<rparr>"

definition lines3 :: "string \<Rightarrow> string \<Rightarrow> string \<Rightarrow> string" where
  \<comment> \<open>three lines of text\<close>
  "lines3 a b c = a @ [CHR 0x0A] @ b @ [CHR 0x0A] @ c"

definition jane_card :: session where
  \<comment> \<open>card 1 reads \<^verbatim>\<open>Jane Doe\<close>, \<^verbatim>\<open>Dept of X\<close>, \<^verbatim>\<open>Student - Foo\<close> and has no sub-element\<close>
  "jane_card =
     blank\<lparr>shown := blank_page\<lparr>found := [(''.t-Card'', [1])],
       texts := [(1, lines3 ''Jane Doe'' ''Dept of X'' ''Student - Foo'')]\<rparr>\<rparr>"

definition desc_card :: session where
  \<comment> \<open>card 1 with a description element 2 that holds the two lines under the name\<close>
  "desc_card =
     blank\<lparr>shown := blank_page\<lparr>found := [(''.t-Card'', [1])],
       nested := [((1, desc_selector), [2])],
       texts := [(1, lines3 ''Jane Doe'' ''Physics'' ''Graduate''),
                 (2, ''Physics'' @ [CHR 0x0A] @ ''Graduate'')]\<rparr>\<rparr>"

definition faculty_card :: session where
  \<comment> \<open>card 1 whose first line under the name holds the word \<^verbatim>\<open>Faculty\<close>\<close>
  "faculty_card =
     blank\<lparr>shown := blank_page\<lparr>found := [(''.t-Card'', [1])],
       texts := [(1, lines3 ''Jane Doe'' ''Faculty of Science'' ''Physics'')]\<rparr>\<rparr>"

definition empty_desc_card :: session where
  \<comment> \<open>card 1 with a description element 2 that has no text\<close>
  "empty_desc_card =
     blank\<lparr>shown := blank_page\<lparr>found := [(''.t-Card'', [1])],
       nested := [((1, desc_selector), [2])],
       texts := [(1, lines3 ''Jane Doe'' ''Physics'' ''Research''), (2, [])]\<rparr>\<rparr>"

definition title_card :: session where
  \<comment> \<open>card 1 with a heading, element 4, that holds the name\<close>
  "title_card =
     blank\<lparr>shown := blank_page\<lparr>found := [(''.t-Card'', [1])],
       nested := [((1, ''h3''), [4])],
       texts := [(1, lines3 ''Doe, Jane'' ''Physics'' ''Staff''), (4, '' Doe, Jane '')]\<rparr>\<rparr>"

definition badge_card :: session where
  \<comment> \<open>card 1 reads \<^verbatim>\<open>Faculty\<close>, \<^verbatim>\<open>Jane Doe\<close>, \<^verbatim>\<open>Physics\<close>; its title link, element 2, has
      no text and its heading, element 3, holds the name\<close>
  "badge_card =
     blank\<lparr>shown := blank_page\<lparr>found := [(''.t-Card'', [1])],
       nested := [((1, ''a.t-Card-title''), [2]), ((1, ''h3''), [3])],
       texts := [(1, lines3 ''Faculty'' ''Jane Doe'' ''Physics''), (2, []), (3, ''Jane Doe'')]\<rparr>\<rparr>"

definition jane_desc_card :: session where
  \<comment> \<open>the card of \<open>jane_card\<close> with a description element 2 around its last two lines\<close>
  "jane_desc_card =
     blank\<lparr>shown := blank_page\<lparr>found := [(''.t-Card'', [1])],
       nested := [((1, desc_selector), [2])],
       texts := [(1, lines3 ''Jane Doe'' ''Dept of X'' ''Student - Foo''),
                 (2, ''Dept of X'' @ [CHR 0x0A] @ ''Student - Foo'')]\<rparr>\<rparr>"

definition jane_odd_card :: session where
  \<comment> \<open>the card of \<open>jane_card\<close> with a description element 2 around its last line only\<close>
  "jane_odd_card =
     blank\<lparr>shown := blank_page\<lparr>found := [(''.t-Card'', [1])],
       nested := [((1, desc_selector), [2])],
       texts := [(1, lines3 ''Jane Doe'' ''Dept of X'' ''Student - Foo''),
                 (2, ''Student - Foo'')]\<rparr>\<rparr>"

definition page3 :: page where
  \<comment> \<open>the active indicator, element 10, reads 3; the pagination container holds a link
      labelled 4, element 11\<close>
  "page3 = blank_page\<lparr>found := [(''.t-Report-pagination b'', [10]), (generic_xpath ''4'', [11])],
                       texts := [(10, ''3'')]\<rparr>"

definition last_page :: page where
  \<comment> \<open>no active indicator; the only Next control, element 12, is disabled\<close>
  "last_page = blank_page\<lparr>found := [(''a[aria-label='Next']'', [12])], disabled := [12]\<rparr>"

definition on_page3 :: session where
  "on_page3 = blank\<lparr>shown := page3, later := [last_page]\<rparr>"

definition on_last_page :: session where
  "on_last_page = blank\<lparr>shown := last_page\<rparr>"

definition site_page1 :: page where
  \<comment> \<open>one card, element 1; the active indicator, element 10, reads 1 and the link labelled
      2 is element 11\<close>
  "site_page1 =
     blank_page\<lparr>found := [(''.t-Card'', [1]), (''.t-Report-pagination b'', [10]),
                           (next_link_xpath ''2'', [11])],
                 texts := [(1, lines3 ''Jane Doe'' ''Dept of X'' ''Student - Foo''), (10, ''1'')]\<rparr>"

definition site_page2 :: page where
  \<comment> \<open>two cards, the second without text; the indicator reads 2 and nothing leads on\<close>
  "site_page2 =
     blank_page\<lparr>found := [(''.t-Card'', [2, 3]), (''.t-Report-pagination b'', [10])],
                 texts := [(2, lines3 ''Ann Roe'' ''Physics'' ''Staff''), (10, ''2'')]\<rparr>"

definition site :: session where
  "site = blank\<lparr>shown := site_page1, later := [site_page2]\<rparr>"

definition letters_page :: page where
  \<comment> \<open>the active indicator, element 10, reads \<^verbatim>\<open>abc\<close>; a Next control, element 12, is
      displayed and enabled\<close>
  "letters_page = blank_page\<lparr>found := [(''.t-Report-pagination b'', [10]),
                                      (''a[aria-label='Next']'', [12])],
                             texts := [(10, ''abc'')]\<rparr>"

definition letters_ok :: session where
  "letters_ok = blank\<lparr>shown := letters_page, later := [last_page]\<rparr>"

definition letters_blocked :: session where
  \<comment> \<open>the same page, with something over the Next control that intercepts the click\<close>
  "letters_blocked = blank\<lparr>shown := letters_page\<lparr>blocked := [12]\<rparr>, later := [last_page]\<rparr>"

definition slow_page :: session where
  \<comment> \<open>the card, element 1, is on the page from the third second on\<close>
  "slow_page =
     blank\<lparr>shown := blank_page\<lparr>found := [(''.t-Card'', [1])]\<rparr>, ready_at := 3\<rparr>"

definition stale_page :: session where
  \<comment> \<open>the card, element 7, is found, and reading its tag raises\<close>
  "stale_page =
     blank\<lparr>shown := blank_page\<lparr>found := [(''.t-Card'', [7])], stale := [7]\<rparr>\<rparr>"

definition linked_card :: session where
  \<comment> \<open>card 1 shows no address; its title link, element 5, leads to a profile page whose
      mail anchor, element 20, holds one\<close>
  "linked_card =
     blank\<lparr>shown := blank_page\<lparr>found := [(''.t-Card'', [1])],
                nested := [((1, ''h3 a''), [5])],
                texts := [(1, lines3 ''Jane Doe'' ''Physics'' ''Staff''), (5, ''Jane Doe'')],
                hrefs := [(5, ''https://example.org/profile/1'')]\<rparr>,
           profile := blank_page\<lparr>found := [(''a[href^='mailto:']'', [20])],
                hrefs := [(20, ''mailto:jane@stanford.edu'')]\<rparr>\<rparr>"

definition closed_window :: session where
  \<comment> \<open>the browser window has been closed: every query of the driver raises\<close>
  "closed_window = blank\<lparr>dead := True\<rparr>"

definition stale_title :: session where
  \<comment> \<open>card 1 has a heading, element 4, that has left the document: reading it raises\<close>
  "stale_title =
     blank\<lparr>shown := blank_page\<lparr>found := [(''.t-Card'', [1])],
                nested := [((1, ''h3''), [4])],
                texts := [(1, lines3 ''Jane Doe'' ''Physics'' ''Staff''), (4, ''Jane Doe'')],
                stale := [4]\<rparr>\<rparr>"

definition late_failure :: "session driver" where
  \<comment> \<open>the simulated browser with a last Next lookup that raises\<close>
  "late_failure =
     sim\<lparr>find_elements := (\<lambda>w b sel.
        if sel = ''a[title='Next']'' then Inl WebDriverException else find_elements sim w b sel)\<rparr>"

definition stuck_tab :: session where
  \<comment> \<open>the same session, in which closing a window raises\<close>
  "stuck_tab = linked_card\<lparr>close_fails := True\<rparr>"

section \<open>Properties of the string functions\<close>

lemma split_ws_no_space:
  "\<forall>c\<in>set tok. \<not> py_isspace c \<Longrightarrow> t \<in> set (split_ws tok s) \<Longrightarrow> c \<in> set t \<Longrightarrow> \<not> py_isspace c"
proof (induction s arbitrary: tok)
  case Nil
  then show ?case by (auto split: if_splits)
next
  case (Cons x xs)
  show ?case
  proof (cases "py_isspace x")
    case True
    with Cons.prems(2) have "t = rev tok \<or> t \<in> set (split_ws [] xs)"
      by (auto split: if_splits)
    then show ?thesis
    proof
      assume "t = rev tok"
      with Cons.prems show ?thesis by simp
    next
      assume "t \<in> set (split_ws [] xs)"
      with Cons.IH [of "[]"] Cons.prems(3) show ?thesis by simp
    qed
  next
    case False
    with Cons.prems(2) have "t \<in> set (split_ws (x # tok) xs)" by simp
    moreover from False Cons.prems(1) have "\<forall>c\<in>set (x # tok). \<not> py_isspace c" by simp
    ultimately show ?thesis using Cons.IH [of "x # tok"] Cons.prems(3) by blast
  qed
qed

lemma py_split_no_space: "t \<in> set (py_split s) \<Longrightarrow> c \<in> set t \<Longrightarrow> \<not> py_isspace c"
  unfolding py_split_def using split_ws_no_space [of "[]" t s c] by simp

lemma dropWhile_none: "\<forall>c\<in>set t. \<not> P c \<Longrightarrow> dropWhile P t = t"
  by (cases t) simp_all

lemma py_strip_no_space: "\<forall>c\<in>set t. \<not> py_isspace c \<Longrightarrow> py_strip t = t"
  by (simp add: py_strip_def dropWhile_none)

lemma first_email_token_find:
  "\<forall>t\<in>set toks. \<forall>c\<in>set t. \<not> py_isspace c \<Longrightarrow>
   first_email_token toks =
     map_option (py_strip_chars '',;()[]'') (find (py_in ''@stanford.edu'') toks)"
  by (induction toks) (simp_all add: py_strip_no_space)

lemma py_in_iff: "py_in sub s \<longleftrightarrow> (\<exists>a b. s = a @ sub @ b)"
proof (induction s)
  case Nil
  then show ?case by auto
next
  case (Cons c cs)
  show ?case
  proof
    assume "py_in sub (c # cs)"
    then consider "prefix sub (c # cs)" | "py_in sub cs" by auto
    then show "\<exists>a b. c # cs = a @ sub @ b"
    proof cases
      case 1
      then obtain b where "c # cs = sub @ b" by (auto simp: prefix_def)
      then have "c # cs = [] @ sub @ b" by simp
      then show ?thesis by blast
    next
      case 2
      with Cons obtain a b where "cs = a @ sub @ b" by auto
      then have "c # cs = (c # a) @ sub @ b" by simp
      then show ?thesis by blast
    qed
  next
    assume "\<exists>a b. c # cs = a @ sub @ b"
    then obtain a b where ab: "c # cs = a @ sub @ b" by auto
    show "py_in sub (c # cs)"
    proof (cases a)
      case Nil
      with ab have "prefix sub (c # cs)" by (simp add: prefix_def)
      then show ?thesis by simp
    next
      case (Cons x a')
      with ab have "cs = a' @ sub @ b" by simp
      then have "py_in sub cs" using Cons.IH by blast
      then show ?thesis by simp
    qed
  qed
qed

lemma dropWhile_keeps_inner:
  assumes "d \<noteq> []" "\<not> P (hd d)"
  shows "\<exists>a'. dropWhile P (a @ d @ b) = a' @ d @ b"
proof (cases "\<forall>x\<in>set a. P x")
  case True
  from assms have "dropWhile P (d @ b) = d @ b" by (cases d) auto
  with True have "dropWhile P (a @ d @ b) = [] @ d @ b" by (simp add: dropWhile_append)
  then show ?thesis by blast
next
  case False
  then have "dropWhile P (a @ d @ b) = dropWhile P a @ d @ b"
    by (auto simp: dropWhile_append)
  then show ?thesis by blast
qed

lemma py_strip_chars_keeps_inner:
  assumes "d \<noteq> []" "hd d \<notin> set chars" "last d \<notin> set chars" "py_in d s"
  shows "py_in d (py_strip_chars chars s)"
proof -
  let ?P = "\<lambda>c. c \<in> set chars"
  from assms(4) obtain a b where s: "s = a @ d @ b" by (auto simp: py_in_iff)
  from dropWhile_keeps_inner [of d ?P a b] assms(1,2)
  obtain a' where "dropWhile ?P (a @ d @ b) = a' @ d @ b" by auto
  with s have 1: "rev (dropWhile ?P s) = rev b @ rev d @ rev a'" by simp
  from assms(1,3) have "rev d \<noteq> []" "\<not> ?P (hd (rev d))" by (simp_all add: hd_rev)
  from dropWhile_keeps_inner [of "rev d" ?P "rev b" "rev a'"] this
  obtain b' where "dropWhile ?P (rev b @ rev d @ rev a') = b' @ rev d @ rev a'" by auto
  with 1 have "py_strip_chars chars s = a' @ d @ rev b'" by (simp add: py_strip_chars_def)
  then show ?thesis unfolding py_in_iff by blast
qed

lemma py_strip_chars_mid:
  "dropWhile (\<lambda>c. c \<in> set chars) s =
     py_strip_chars chars s @
     rev (takeWhile (\<lambda>c. c \<in> set chars) (rev (dropWhile (\<lambda>c. c \<in> set chars) s)))"
proof -
  let ?P = "\<lambda>c. c \<in> set chars"
  let ?m = "dropWhile ?P s"
  have "?m = rev (rev ?m)" by simp
  also have "\<dots> = rev (takeWhile ?P (rev ?m) @ dropWhile ?P (rev ?m))"
    by (simp only: takeWhile_dropWhile_id)
  also have "\<dots> = rev (dropWhile ?P (rev ?m)) @ rev (takeWhile ?P (rev ?m))"
    by (simp only: rev_append)
  finally show ?thesis by (simp only: py_strip_chars_def)
qed

lemma py_strip_chars_decomp:
  "\<exists>pre suf. s = pre @ py_strip_chars chars s @ suf \<and> set pre \<subseteq> set chars \<and> set suf \<subseteq> set chars"
proof -
  let ?P = "\<lambda>c. c \<in> set chars"
  let ?m = "dropWhile ?P s"
  have "s = takeWhile ?P s @ ?m" by simp
  then have "s = takeWhile ?P s @ py_strip_chars chars s @ rev (takeWhile ?P (rev ?m))"
    using py_strip_chars_mid [of chars s] by simp
  moreover have "set (takeWhile ?P s) \<subseteq> set chars" by (auto dest: set_takeWhileD)
  moreover have "set (rev (takeWhile ?P (rev ?m))) \<subseteq> set chars" by (auto dest: set_takeWhileD)
  ultimately show ?thesis by blast
qed

lemma py_strip_chars_ends:
  assumes "py_strip_chars chars s \<noteq> []"
  shows "hd (py_strip_chars chars s) \<notin> set chars \<and> last (py_strip_chars chars s) \<notin> set chars"
proof -
  let ?P = "\<lambda>c. c \<in> set chars"
  let ?m = "dropWhile ?P s"
  let ?r = "py_strip_chars chars s"
  from assms have n: "dropWhile ?P (rev ?m) \<noteq> []" by (simp add: py_strip_chars_def)
  then have "\<not> ?P (hd (dropWhile ?P (rev ?m)))" by (rule hd_dropWhile)
  then have l: "last ?r \<notin> set chars" using n by (simp add: py_strip_chars_def last_rev)
  from assms py_strip_chars_mid [of chars s] have "hd ?m = hd ?r" "?m \<noteq> []"
    by (metis hd_append2, metis append_is_Nil_conv)
  moreover have "?m \<noteq> [] \<Longrightarrow> \<not> ?P (hd ?m)" by (rule hd_dropWhile)
  ultimately show ?thesis using l by auto
qed

section \<open>Email from text: the claims\<close>

text \<open>
  C9, as amended. \<^verbatim>\<open>extract_email_from_text\<close> returns no email when no
  whitespace-separated token of the text contains \<^verbatim>\<open>@stanford.edu\<close>. Otherwise it takes
  the first such token and strips the characters \<^verbatim>\<open>,;()[]\<close> from both of its ends, the
  leading ones as well as the trailing ones: the token is a run of these characters, then
  the result, then a run of these characters; the result neither begins nor ends with one
  of them, and the domain suffix is still inside it.
\<close>

theorem extract_email_strips_both_ends:
  "extract_email_from_text text =
     map_option (py_strip_chars '',;()[]'') (find (py_in ''@stanford.edu'') (py_split text))
   \<and> (\<exists>pre suf. token = pre @ py_strip_chars chars token @ suf \<and>
          set pre \<subseteq> set chars \<and> set suf \<subseteq> set chars)
   \<and> (py_strip_chars chars token \<noteq> [] \<longrightarrow>
          hd (py_strip_chars chars token) \<notin> set chars \<and>
          last (py_strip_chars chars token) \<notin> set chars)
   \<and> (py_in ''@stanford.edu'' token \<longrightarrow>
          py_in ''@stanford.edu'' (py_strip_chars '',;()[]'' token))"
proof -
  have "\<forall>t\<in>set (py_split text). \<forall>c\<in>set t. \<not> py_isspace c"
    using py_split_no_space by blast
  then have "extract_email_from_text text =
     map_option (py_strip_chars '',;()[]'') (find (py_in ''@stanford.edu'') (py_split text))"
    unfolding extract_email_from_text_def by (rule first_email_token_find)
  moreover have "py_in ''@stanford.edu'' token \<longrightarrow>
          py_in ''@stanford.edu'' (py_strip_chars '',;()[]'' token)"
    by (rule impI, rule py_strip_chars_keeps_inner) simp_all
  ultimately show ?thesis
    using py_strip_chars_decomp [of token chars] py_strip_chars_ends [of chars token]
    by blast
qed

theorem extract_email_strips_both_ends_witness:
  "extract_email_from_text ''Mail (jdoe@stanford.edu), thanks'' = Some ''jdoe@stanford.edu''
   \<and> find (py_in ''@stanford.edu'') (py_split ''Mail (jdoe@stanford.edu), thanks'') =
       Some ''(jdoe@stanford.edu),''
   \<and> py_strip_chars '',;()[]'' ''(jdoe@stanford.edu),'' = ''jdoe@stanford.edu''
   \<and> py_in ''@stanford.edu'' ''(jdoe@stanford.edu),''
   \<and> py_in ''@stanford.edu'' (py_strip_chars '',;()[]'' ''(jdoe@stanford.edu),'')
   \<and> extract_email_from_text ''no address here'' = None"
  using extract_email_strips_both_ends
          [of "''Mail (jdoe@stanford.edu), thanks''" "''(jdoe@stanford.edu),''" "'',;()[]''"]
  by (simp add: extract_email_from_text_def py_split_def py_isspace_def py_strip_def
        py_strip_chars_def)

text \<open>
  C9, as stated, fails: it has only the trailing characters stripped and the leading ones
  kept. On the text \<^verbatim>\<open>Mail (jdoe@stanford.edu), thanks\<close> the function returns
  \<^verbatim>\<open>jdoe@stanford.edu\<close>, where the claim's reading gives \<^verbatim>\<open>(jdoe@stanford.edu\<close>.
\<close>

theorem extract_email_leading_counterexample:
  "extract_email_from_text ''Mail (jdoe@stanford.edu), thanks'' = Some ''jdoe@stanford.edu''
   \<and> map_option (spec_trailing_strip '',;()[]'')
        (find (py_in ''@stanford.edu'') (py_split ''Mail (jdoe@stanford.edu), thanks'')) =
       Some ''(jdoe@stanford.edu''
   \<and> extract_email_from_text ''Mail (jdoe@stanford.edu), thanks'' \<noteq>
       map_option (spec_trailing_strip '',;()[]'')
        (find (py_in ''@stanford.edu'') (py_split ''Mail (jdoe@stanford.edu), thanks''))"
  by (simp add: extract_email_from_text_def py_split_def py_isspace_def py_strip_def
        py_strip_chars_def spec_trailing_strip_def)

section \<open>Card locator: the claims\<close>

lemma best_cards_raises:
  "best_cards d w sels best = Inl e \<Longrightarrow> \<exists>sel\<in>set sels. find_elements d w CSS_SELECTOR sel = Inl e"
  by (induction sels arbitrary: best) (auto split: sum.splits)

lemma best_cards_returns:
  "\<forall>sel\<in>set sels. \<exists>r. find_elements d w CSS_SELECTOR sel = Inr r \<Longrightarrow>
   \<exists>cards. best_cards d w sels best = Inr cards"
  by (induction sels arbitrary: best) (auto split: sum.splits)

lemma best_cards_greatest:
  assumes "best_cards d w sels best = Inr cards"
  shows "(\<forall>sel\<in>set sels. \<exists>r. find_elements d w CSS_SELECTOR sel = Inr r \<and> length r \<le> length cards)
       \<and> length best \<le> length cards
       \<and> (cards = best \<or>
           (\<exists>i<length sels. find_elements d w CSS_SELECTOR (sels ! i) = Inr cards \<and>
              length best < length cards \<and>
              (\<forall>j<i. \<exists>r. find_elements d w CSS_SELECTOR (sels ! j) = Inr r \<and>
                         length r < length cards)))"
  using assms
proof (induction sels arbitrary: best)
  case Nil
  then show ?case by simp
next
  case (Cons sel sels)
  from Cons.prems obtain els where els: "find_elements d w CSS_SELECTOR sel = Inr els"
    by (cases "find_elements d w CSS_SELECTOR sel") auto
  define b where "b = (if length els > length best then els else best)"
  from Cons.prems els have run: "best_cards d w sels b = Inr cards" by (simp add: b_def)
  from Cons.IH [OF run]
  have all: "\<forall>s\<in>set sels. \<exists>r. find_elements d w CSS_SELECTOR s = Inr r \<and> length r \<le> length cards"
    and le: "length b \<le> length cards"
    and pick: "cards = b \<or>
           (\<exists>i<length sels. find_elements d w CSS_SELECTOR (sels ! i) = Inr cards \<and>
              length b < length cards \<and>
              (\<forall>j<i. \<exists>r. find_elements d w CSS_SELECTOR (sels ! j) = Inr r \<and>
                         length r < length cards))"
    by blast+
  have b_els: "length els \<le> length b" and b_best: "length best \<le> length b"
    by (simp_all add: b_def)
  have 1: "\<forall>s\<in>set (sel # sels). \<exists>r. find_elements d w CSS_SELECTOR s = Inr r \<and> length r \<le> length cards"
    using all els b_els le by auto
  have 2: "length best \<le> length cards" using b_best le by simp
  have 3: "cards = best \<or>
           (\<exists>i<length (sel # sels). find_elements d w CSS_SELECTOR ((sel # sels) ! i) = Inr cards \<and>
              length best < length cards \<and>
              (\<forall>j<i. \<exists>r. find_elements d w CSS_SELECTOR ((sel # sels) ! j) = Inr r \<and>
                         length r < length cards))"
    using pick
  proof
    assume cb: "cards = b"
    show ?thesis
    proof (cases "length els > length best")
      case True
      with cb have "cards = els" by (simp add: b_def)
      with els True have "0 < length (sel # sels) \<and>
          find_elements d w CSS_SELECTOR ((sel # sels) ! 0) = Inr cards \<and>
          length best < length cards \<and>
          (\<forall>j<0. \<exists>r. find_elements d w CSS_SELECTOR ((sel # sels) ! j) = Inr r \<and>
                         length r < length cards)" by simp
      then show ?thesis by blast
    next
      case False
      with cb show ?thesis by (simp add: b_def)
    qed
  next
    assume "\<exists>i<length sels. find_elements d w CSS_SELECTOR (sels ! i) = Inr cards \<and>
              length b < length cards \<and>
              (\<forall>j<i. \<exists>r. find_elements d w CSS_SELECTOR (sels ! j) = Inr r \<and>
                         length r < length cards)"
    then obtain i where i: "i < length sels"
      and fi: "find_elements d w CSS_SELECTOR (sels ! i) = Inr cards"
      and lt: "length b < length cards"
      and before: "\<forall>j<i. \<exists>r. find_elements d w CSS_SELECTOR (sels ! j) = Inr r \<and>
                         length r < length cards"
      by blast
    have "\<forall>j<Suc i. \<exists>r. find_elements d w CSS_SELECTOR ((sel # sels) ! j) = Inr r \<and>
                         length r < length cards"
    proof (intro allI impI)
      fix j assume "j < Suc i"
      show "\<exists>r. find_elements d w CSS_SELECTOR ((sel # sels) ! j) = Inr r \<and> length r < length cards"
      proof (cases j)
        case 0
        with els b_els lt show ?thesis by auto
      next
        case (Suc j')
        with \<open>j < Suc i\<close> before show ?thesis by auto
      qed
    qed
    moreover have "Suc i < length (sel # sels)" using i by simp
    moreover have "find_elements d w CSS_SELECTOR ((sel # sels) ! Suc i) = Inr cards" using fi by simp
    moreover have "length best < length cards" using b_best lt by simp
    ultimately show ?thesis by blast
  qed
  from 1 2 3 show ?case by blast
qed

lemma find_cards_greatest:
  assumes "find_cards d w = Inr cards"
  shows "\<exists>i<length card_candidates.
           find_elements d w CSS_SELECTOR (card_candidates ! i) = Inr cards \<and>
           (\<forall>j<length card_candidates. \<exists>r.
              find_elements d w CSS_SELECTOR (card_candidates ! j) = Inr r \<and>
              length r \<le> length cards \<and> (j < i \<longrightarrow> length r < length cards))"
proof -
  from assms have run: "best_cards d w card_candidates [] = Inr cards" by (simp add: find_cards_def)
  note g = best_cards_greatest [OF run]
  from g have all: "\<forall>j<length card_candidates. \<exists>r.
              find_elements d w CSS_SELECTOR (card_candidates ! j) = Inr r \<and>
              length r \<le> length cards"
    by (metis nth_mem)
  from g have "cards = [] \<or>
           (\<exists>i<length card_candidates. find_elements d w CSS_SELECTOR (card_candidates ! i) = Inr cards \<and>
              (\<forall>j<i. \<exists>r. find_elements d w CSS_SELECTOR (card_candidates ! j) = Inr r \<and>
                         length r < length cards))" by blast
  then show ?thesis
  proof
    assume e: "cards = []"
    have n: "0 < length card_candidates" by (simp add: card_candidates_def)
    with all e have "find_elements d w CSS_SELECTOR (card_candidates ! 0) = Inr cards" by fastforce
    with n all show ?thesis by (intro exI [of _ 0]) auto
  next
    assume "\<exists>i<length card_candidates. find_elements d w CSS_SELECTOR (card_candidates ! i) = Inr cards \<and>
              (\<forall>j<i. \<exists>r. find_elements d w CSS_SELECTOR (card_candidates ! j) = Inr r \<and>
                         length r < length cards)"
    then obtain i where "i < length card_candidates"
      "find_elements d w CSS_SELECTOR (card_candidates ! i) = Inr cards"
      "\<forall>j<i. \<exists>r. find_elements d w CSS_SELECTOR (card_candidates ! j) = Inr r \<and>
                         length r < length cards" by blast
    with all show ?thesis by (intro exI [of _ i]) fastforce
  qed
qed

lemmas sim_defs =
  sim_def blank_def blank_page_def alive_def in_view_def assoc_def guarded_def first_of_def
  navigate_def

text \<open>
  C2. Whenever \<^verbatim>\<open>find_cards\<close> returns, it returns what one candidate selector of the
  fixed list matched; every candidate was evaluated and none matched more elements, and
  every candidate declared earlier matched strictly fewer: the greatest count wins and the
  earliest candidate wins a tie. It returns whenever the queries themselves return; when
  no candidate matches anything the result is the empty list, not an error. The only
  exception it can raise is one that a query of the driver raised.
\<close>

theorem find_cards_first_greatest:
  "(find_cards d w = Inr cards \<longrightarrow>
      (\<exists>i<length card_candidates.
          find_elements d w CSS_SELECTOR (card_candidates ! i) = Inr cards \<and>
          (\<forall>j<length card_candidates. \<exists>r.
              find_elements d w CSS_SELECTOR (card_candidates ! j) = Inr r \<and>
              length r \<le> length cards \<and> (j < i \<longrightarrow> length r < length cards))))
   \<and> ((\<forall>sel\<in>set card_candidates. \<exists>r. find_elements d w CSS_SELECTOR sel = Inr r) \<longrightarrow>
        (\<exists>cs. find_cards d w = Inr cs))
   \<and> ((\<forall>sel\<in>set card_candidates. find_elements d w CSS_SELECTOR sel = Inr []) \<longrightarrow>
        find_cards d w = Inr [])
   \<and> (find_cards d w = Inl e \<longrightarrow>
        (\<exists>sel\<in>set card_candidates. find_elements d w CSS_SELECTOR sel = Inl e))"
proof (intro conjI impI)
  assume "find_cards d w = Inr cards"
  then show "\<exists>i<length card_candidates.
          find_elements d w CSS_SELECTOR (card_candidates ! i) = Inr cards \<and>
          (\<forall>j<length card_candidates. \<exists>r.
              find_elements d w CSS_SELECTOR (card_candidates ! j) = Inr r \<and>
              length r \<le> length cards \<and> (j < i \<longrightarrow> length r < length cards))"
    by (rule find_cards_greatest)
next
  assume "\<forall>sel\<in>set card_candidates. \<exists>r. find_elements d w CSS_SELECTOR sel = Inr r"
  then show "\<exists>cs. find_cards d w = Inr cs"
    unfolding find_cards_def by (rule best_cards_returns)
next
  assume none: "\<forall>sel\<in>set card_candidates. find_elements d w CSS_SELECTOR sel = Inr []"
  then have "\<forall>sel\<in>set card_candidates. \<exists>r. find_elements d w CSS_SELECTOR sel = Inr r"
    by simp
  then have "\<exists>cs. find_cards d w = Inr cs"
    unfolding find_cards_def by (rule best_cards_returns)
  then obtain cs where cs: "find_cards d w = Inr cs" by blast
  from find_cards_greatest [OF cs] obtain i where "i < length card_candidates"
    "find_elements d w CSS_SELECTOR (card_candidates ! i) = Inr cs" by blast
  with none have "cs = []" by (metis nth_mem sum.inject(2))
  with cs show "find_cards d w = Inr []" by simp
next
  assume "find_cards d w = Inl e"
  then show "\<exists>sel\<in>set card_candidates. find_elements d w CSS_SELECTOR sel = Inl e"
    unfolding find_cards_def by (rule best_cards_raises)
qed

theorem find_cards_first_greatest_witness:
  "find_cards sim cards_page = Inr [1, 2]
   \<and> find_elements sim cards_page CSS_SELECTOR ''.t-Card'' = Inr [1, 2]
   \<and> find_elements sim cards_page CSS_SELECTOR ''.t-ContentRow'' = Inr [3, 4]
   \<and> find_elements sim cards_page CSS_SELECTOR ''.t-ContentRow-content'' = Inr [5]
   \<and> find_cards sim blank = Inr []
   \<and> find_cards sim (blank\<lparr>dead := True\<rparr>) = Inl NoSuchWindowException"
  using find_cards_first_greatest [of sim cards_page "[1, 2]" NoSuchWindowException]
    find_cards_first_greatest [of sim blank "[]" NoSuchWindowException]
    find_cards_first_greatest [of sim "blank\<lparr>dead := True\<rparr>" "[]" NoSuchWindowException]
  by (simp add: find_cards_def card_candidates_def cards_page_def sim_defs)

section \<open>Record extractor: the claims\<close>

lemma parse_card_no_lines:
  "text_lines d w c = [] \<Longrightarrow> parse_card cfg d w c = (Inr None, w)"
  by (simp add: parse_card_def text_lines_def Let_def)

lemma extract_cards_rows:
  "extract_cards cfg d w cards sink = (r, sink', w') \<Longrightarrow>
   \<exists>rows. sink' = sink @ rows \<and> length rows \<le> length cards"
proof (induction cards arbitrary: w sink)
  case Nil
  then show ?case by simp
next
  case (Cons c cs)
  obtain res w1 where p: "parse_card cfg d w c = (res, w1)" by (cases "parse_card cfg d w c")
  show ?case
  proof (cases res)
    case (Inl x)
    with Cons.prems p show ?thesis by simp
  next
    case (Inr row)
    show ?thesis
    proof (cases row)
      case None
      with Cons.prems p Inr have "extract_cards cfg d w1 cs sink = (r, sink', w')" by simp
      from Cons.IH [OF this] show ?thesis by auto
    next
      case (Some pr)
      with Cons.prems p Inr
      have "extract_cards cfg d w1 cs (sink @ [csv_row pr]) = (r, sink', w')" by simp
      from Cons.IH [OF this] obtain rows
        where "sink' = (sink @ [csv_row pr]) @ rows" "length rows \<le> length cs" by blast
      then have "sink' = sink @ (csv_row pr # rows) \<and> length (csv_row pr # rows) \<le> length (c # cs)"
        by simp
      then show ?thesis by blast
    qed
  qed
qed

text \<open>
  C4. When the text of a card's scope has no non-empty trimmed line, \<^verbatim>\<open>parse_card\<close>
  returns \<^verbatim>\<open>None\<close>: it raises nothing and leaves the session as it was. The loop of
  \<^verbatim>\<open>scrape_results\<close> over the cards of a page then goes on to the next card with the
  output unchanged, so no row is written for that card. Whatever the cards are, the loop
  only appends rows to the output, at most one for each card.
\<close>

theorem parse_card_skips_empty_card:
  "(text_lines d w c = [] \<longrightarrow>
      parse_card cfg d w c = (Inr None, w) \<and>
      extract_cards cfg d w (c # cs) sink = extract_cards cfg d w cs sink \<and>
      extract_cards cfg d w [c] sink = (None, sink, w))
   \<and> (extract_cards cfg d w cards sink = (r, sink', w') \<longrightarrow>
        (\<exists>rows. sink' = sink @ rows \<and> length rows \<le> length cards))"
  using extract_cards_rows [of cfg d w cards sink r sink' w']
  by (simp add: parse_card_no_lines)

theorem parse_card_skips_empty_card_witness:
  "text_lines sim filler_page 7 = []
   \<and> parse_card default_config sim filler_page 7 = (Inr None, filler_page)
   \<and> extract_cards default_config sim filler_page [7] [[''name'']] =
       (None, [[''name'']], filler_page)
   \<and> extract_cards default_config sim filler_page [7, 8] [[''name'']] =
       (None, [[''name''], [''Jane Doe'', [], [], []]], filler_page)"
proof -
  have blank_text: "text_lines sim filler_page 7 = []"
    by code_simp
  have two_cards: "extract_cards default_config sim filler_page [7, 8] [[''name'']] =
       (None, [[''name''], [''Jane Doe'', [], [], []]], filler_page)"
    by code_simp
  from parse_card_skips_empty_card
    [of sim filler_page 7 default_config "[8]" "[[''name'']]" "[7, 8]" None
      "[[''name''], [''Jane Doe'', [], [], []]]" filler_page]
    blank_text two_cards
  show ?thesis by blast
qed

lemma parse_card_Some:
  assumes "parse_card cfg d w c = (Inr (Some row), w')"
  shows "\<exists>first others. text_lines d w c = first # others \<and>
           card_name d w (name_el d w c) first = Inr (name row) \<and>
           department row =
             fst (department_affiliation d w (scope_el d w c)
                    (filter (\<lambda>l. l \<noteq> name row) (text_lines d w c))) \<and>
           affiliation row =
             snd (department_affiliation d w (scope_el d w c)
                    (filter (\<lambda>l. l \<noteq> name row) (text_lines d w c)))"
proof -
  let ?scope = "scope_el d w c"
  let ?lines = "stripped_lines (safe_text d w ?scope)"
  obtain first others where lines: "?lines = first # others"
    using assms by (cases ?lines) (auto simp: parse_card_def Let_def)
  let ?title = "first_found d w ?scope name_selectors"
  obtain nm where nm: "card_name d w ?title first = Inr nm"
    using assms lines by (cases "card_name d w ?title first") (auto simp: parse_card_def Let_def)
  let ?rest = "filter (\<lambda>l. l \<noteq> nm) ?lines"
  obtain dept affil where da: "department_affiliation d w ?scope ?rest = (dept, affil)"
    by (cases "department_affiliation d w ?scope ?rest")
  from assms lines nm da have "name row = nm \<and> department row = dept \<and> affiliation row = affil"
    by (auto simp: parse_card_def Let_def split: prod.splits sum.splits)
  with lines nm da show ?thesis
    by (simp add: text_lines_def name_el_def)
qed

lemma department_affiliation_found:
  assumes "el_find_element d w scope CSS_SELECTOR desc_selector = Inr desc"
  shows "department_affiliation d w scope rest =
           (line_or_empty (stripped_lines (safe_text d w desc)) 0,
            case find is_role_line (take 2 (drop 1 rest)) of
              Some l \<Rightarrow> l
            | None \<Rightarrow> line_or_empty (stripped_lines (safe_text d w desc)) 1)"
  using assms
  by (auto simp: department_affiliation_def desc_selector_def line_or_empty_def Let_def
        split: option.splits)

lemma department_affiliation_missing:
  assumes "el_find_element d w scope CSS_SELECTOR desc_selector = Inl e"
  shows "department_affiliation d w scope rest =
           (line_or_empty rest 0,
            case find is_role_line (take 2 (drop 1 rest)) of
              Some l \<Rightarrow> l
            | None \<Rightarrow> line_or_empty rest 1)"
  using assms
  by (auto simp: department_affiliation_def desc_selector_def line_or_empty_def Let_def
        split: option.splits)

lemma find_Some_holds: "find P xs = Some x \<Longrightarrow> P x \<and> x \<in> set xs"
  by (induction xs) (auto split: if_splits)

text \<open>
  C5, as amended. For a card that yields a record, let the remaining lines be the text
  lines other than the name. When the scope has a description sub-element, the department
  is its first sub-line and the affiliation guess its second, each empty when the
  sub-element has no such line (the remaining lines do not stand in for an empty
  description). When the lookup of the sub-element fails, the department is the first
  remaining line and the guess the second. Then the second and third remaining lines, not
  the first, are searched: the first of them that contains \<^verbatim>\<open> - \<close>, \<^verbatim>\<open>Student\<close>,
  \<^verbatim>\<open>Faculty\<close> or \<^verbatim>\<open>Staff\<close> replaces the guess.
\<close>

theorem department_affiliation_of_card:
  assumes "parse_card cfg d w c = (Inr (Some row), w')"
    and "rest = filter (\<lambda>l. l \<noteq> name row) (text_lines d w c)"
    and "role = find is_role_line (take 2 (drop 1 rest))"
  shows "text_lines d w c \<noteq> []
   \<and> (\<forall>desc. el_find_element d w (scope_el d w c) CSS_SELECTOR desc_selector = Inr desc \<longrightarrow>
         department row = line_or_empty (stripped_lines (safe_text d w desc)) 0 \<and>
         (role = None \<longrightarrow>
            affiliation row = line_or_empty (stripped_lines (safe_text d w desc)) 1))
   \<and> (\<forall>e. el_find_element d w (scope_el d w c) CSS_SELECTOR desc_selector = Inl e \<longrightarrow>
         department row = line_or_empty rest 0 \<and>
         (role = None \<longrightarrow> affiliation row = line_or_empty rest 1))
   \<and> (\<forall>l. role = Some l \<longrightarrow>
         affiliation row = l \<and> is_role_line l \<and> l \<in> set (take 2 (drop 1 rest)))"
proof -
  from parse_card_Some [OF assms(1)] assms(2)
  have lines: "text_lines d w c \<noteq> []"
    and dept: "department row = fst (department_affiliation d w (scope_el d w c) rest)"
    and affil: "affiliation row = snd (department_affiliation d w (scope_el d w c) rest)"
    by auto
  have found: "department row = line_or_empty (stripped_lines (safe_text d w desc)) 0 \<and>
         (role = None \<longrightarrow>
            affiliation row = line_or_empty (stripped_lines (safe_text d w desc)) 1)"
    if "el_find_element d w (scope_el d w c) CSS_SELECTOR desc_selector = Inr desc" for desc
    using department_affiliation_found [OF that, of rest] dept affil assms(3) by auto
  have missing: "department row = line_or_empty rest 0 \<and>
         (role = None \<longrightarrow> affiliation row = line_or_empty rest 1)"
    if "el_find_element d w (scope_el d w c) CSS_SELECTOR desc_selector = Inl e" for e
    using department_affiliation_missing [OF that, of rest] dept affil assms(3) by auto
  have role: "affiliation row = l \<and> is_role_line l \<and> l \<in> set (take 2 (drop 1 rest))"
    if "role = Some l" for l
  proof -
    from that assms(3) have f: "find is_role_line (take 2 (drop 1 rest)) = Some l" by simp
    have "snd (department_affiliation d w (scope_el d w c) rest) = l"
      using f
      by (cases "el_find_element d w (scope_el d w c) CSS_SELECTOR desc_selector")
         (simp_all add: department_affiliation_found department_affiliation_missing)
    with affil find_Some_holds [OF f] show ?thesis by simp
  qed
  from lines found missing role show ?thesis by blast
qed

theorem department_affiliation_of_card_witness:
  "parse_card default_config sim jane_card 1 =
     (Inr (Some \<lparr>name = ''Jane Doe'', email = [], affiliation = ''Student - Foo'',
                 department = ''Dept of X''\<rparr>), jane_card)
   \<and> el_find_element sim jane_card (scope_el sim jane_card 1) CSS_SELECTOR desc_selector =
       Inl NoSuchElementException
   \<and> line_or_empty [''Dept of X'', ''Student - Foo''] 0 = ''Dept of X''
   \<and> find is_role_line (take 2 (drop 1 [''Dept of X'', ''Student - Foo''])) =
       Some ''Student - Foo''
   \<and> parse_card default_config sim desc_card 1 =
     (Inr (Some \<lparr>name = ''Jane Doe'', email = [], affiliation = ''Graduate'',
                 department = ''Physics''\<rparr>), desc_card)
   \<and> el_find_element sim desc_card (scope_el sim desc_card 1) CSS_SELECTOR desc_selector = Inr 2
   \<and> stripped_lines (safe_text sim desc_card 2) = [''Physics'', ''Graduate'']
   \<and> find is_role_line (take 2 (drop 1 [''Physics'', ''Graduate''])) = None"
proof -
  have jane: "parse_card default_config sim jane_card 1 =
     (Inr (Some \<lparr>name = ''Jane Doe'', email = [], affiliation = ''Student - Foo'',
                 department = ''Dept of X''\<rparr>), jane_card)"
    by code_simp
  have jane_rest: "[''Dept of X'', ''Student - Foo''] =
      filter (\<lambda>l. l \<noteq> name \<lparr>name = ''Jane Doe'', email = [], affiliation = ''Student - Foo'',
                 department = ''Dept of X''\<rparr>) (text_lines sim jane_card 1)"
    by code_simp
  have jane_desc: "el_find_element sim jane_card (scope_el sim jane_card 1) CSS_SELECTOR
      desc_selector = Inl NoSuchElementException"
    by code_simp
  have jane_role: "find is_role_line (take 2 (drop 1 [''Dept of X'', ''Student - Foo''])) =
       Some ''Student - Foo''"
    by code_simp
  have jane_first: "line_or_empty [''Dept of X'', ''Student - Foo''] 0 = ''Dept of X''"
    by code_simp
  have desc: "parse_card default_config sim desc_card 1 =
     (Inr (Some \<lparr>name = ''Jane Doe'', email = [], affiliation = ''Graduate'',
                 department = ''Physics''\<rparr>), desc_card)"
    by code_simp
  have desc_rest: "[''Physics'', ''Graduate''] =
      filter (\<lambda>l. l \<noteq> name \<lparr>name = ''Jane Doe'', email = [], affiliation = ''Graduate'',
                 department = ''Physics''\<rparr>) (text_lines sim desc_card 1)"
    by code_simp
  have desc_el: "el_find_element sim desc_card (scope_el sim desc_card 1) CSS_SELECTOR
      desc_selector = Inr 2"
    by code_simp
  have desc_lines: "stripped_lines (safe_text sim desc_card 2) = [''Physics'', ''Graduate'']"
    by code_simp
  have desc_role: "find is_role_line (take 2 (drop 1 [''Physics'', ''Graduate''])) = None"
    by code_simp
  note department_affiliation_of_card [OF jane jane_rest jane_role [symmetric]]
    department_affiliation_of_card [OF desc desc_rest desc_role [symmetric]]
  with jane jane_desc jane_role jane_first desc desc_el desc_lines desc_role
  show ?thesis by blast
qed

text \<open>
  C5, as stated, fails twice. A card that reads \<^verbatim>\<open>Jane Doe\<close>, \<^verbatim>\<open>Faculty of Science\<close>,
  \<^verbatim>\<open>Physics\<close> gets the affiliation \<^verbatim>\<open>Physics\<close>: the first line after the name holds a
  role marker but is not searched. A card whose description element is present and empty
  gets an empty department and affiliation: its remaining lines are not used.
\<close>

theorem department_affiliation_counterexample:
  "parse_card default_config sim faculty_card 1 =
     (Inr (Some \<lparr>name = ''Jane Doe'', email = [], affiliation = ''Physics'',
                 department = ''Faculty of Science''\<rparr>), faculty_card)
   \<and> text_lines sim faculty_card 1 = [''Jane Doe'', ''Faculty of Science'', ''Physics'']
   \<and> spec_department_affiliation sim faculty_card (scope_el sim faculty_card 1)
        [''Faculty of Science'', ''Physics''] = (''Faculty of Science'', ''Faculty of Science'')
   \<and> parse_card default_config sim empty_desc_card 1 =
     (Inr (Some \<lparr>name = ''Jane Doe'', email = [], affiliation = [], department = []\<rparr>),
      empty_desc_card)
   \<and> text_lines sim empty_desc_card 1 = [''Jane Doe'', ''Physics'', ''Research'']
   \<and> spec_department_affiliation sim empty_desc_card (scope_el sim empty_desc_card 1)
        [''Physics'', ''Research''] = (''Physics'', ''Research'')"
  by code_simp

lemma first_found_Some:
  "first_found d w el sels = Some x \<Longrightarrow>
   \<exists>i<length sels. el_find_element d w el CSS_SELECTOR (sels ! i) = Inr x \<and>
     (\<forall>j<i. \<exists>e. el_find_element d w el CSS_SELECTOR (sels ! j) = Inl e)"
proof (induction sels)
  case Nil
  then show ?case by simp
next
  case (Cons sel sels)
  show ?case
  proof (cases "el_find_element d w el CSS_SELECTOR sel")
    case (Inr y)
    with Cons.prems have "y = x" by simp
    with Inr have "0 < length (sel # sels) \<and>
        el_find_element d w el CSS_SELECTOR ((sel # sels) ! 0) = Inr x \<and>
        (\<forall>j<0. \<exists>e. el_find_element d w el CSS_SELECTOR ((sel # sels) ! j) = Inl e)" by simp
    then show ?thesis by blast
  next
    case (Inl e)
    with Cons.prems have "first_found d w el sels = Some x" by simp
    from Cons.IH [OF this] obtain i where i: "i < length sels"
      "el_find_element d w el CSS_SELECTOR (sels ! i) = Inr x"
      "\<forall>j<i. \<exists>e. el_find_element d w el CSS_SELECTOR (sels ! j) = Inl e" by blast
    have "\<forall>j<Suc i. \<exists>e. el_find_element d w el CSS_SELECTOR ((sel # sels) ! j) = Inl e"
    proof (intro allI impI)
      fix j assume "j < Suc i"
      then show "\<exists>e. el_find_element d w el CSS_SELECTOR ((sel # sels) ! j) = Inl e"
        using Inl i(3) by (cases j) auto
    qed
    with i(1,2) have "Suc i < length (sel # sels) \<and>
        el_find_element d w el CSS_SELECTOR ((sel # sels) ! Suc i) = Inr x \<and>
        (\<forall>j<Suc i. \<exists>e. el_find_element d w el CSS_SELECTOR ((sel # sels) ! j) = Inl e)" by simp
    then show ?thesis by blast
  qed
qed

lemma first_found_None:
  "first_found d w el sels = None \<Longrightarrow>
   \<forall>sel\<in>set sels. \<exists>e. el_find_element d w el CSS_SELECTOR sel = Inl e"
  by (induction sels) (auto split: sum.splits)

lemma stripped_lines_nonempty: "l \<in> set (stripped_lines t) \<Longrightarrow> l \<noteq> []"
  by (simp add: stripped_lines_def)

lemma parse_card_returns:
  assumes "text_lines d w c \<noteq> []" and "\<not> allow_profile_nav cfg"
    and "\<forall>el. name_el d w c = Some el \<longrightarrow> (\<exists>t. el_text d w el = Inr t)"
  shows "\<exists>row. parse_card cfg d w c = (Inr (Some row), w)"
proof -
  from assms(1) obtain first others
    where lines: "stripped_lines (safe_text d w (scope_el d w c)) = first # others"
    by (cases "stripped_lines (safe_text d w (scope_el d w c))") (auto simp: text_lines_def)
  from assms(3)
  have "\<exists>nm. card_name d w (first_found d w (scope_el d w c) name_selectors) first = Inr nm"
    by (cases "first_found d w (scope_el d w c) name_selectors")
       (auto simp: card_name_def name_el_def)
  then obtain nm
    where "card_name d w (first_found d w (scope_el d w c) name_selectors) first = Inr nm"
    by blast
  with lines assms(2) show ?thesis
    by (simp add: parse_card_def Let_def profile_email_def split: prod.splits)
qed

text \<open>
  C6, as amended. A card with at least one text line yields a record, unless reading the
  title element raises (profile navigation off, as by default). The title element is the
  element found by the first selector of the cascade that finds one in the scope. The name
  is that element's trimmed text when its text is non-empty; when no selector finds an
  element, or the element found has an empty text, the name is the first text line. The
  cascade stops at the first element found and does not go on to a later selector when
  that element has no text. The name is non-empty when no element is found, when the
  element's text is empty, and when its trimmed text is non-empty.
\<close>

theorem name_of_card:
  "(text_lines d w c \<noteq> [] \<and> \<not> allow_profile_nav cfg \<and>
      (\<forall>el. name_el d w c = Some el \<longrightarrow> (\<exists>t. el_text d w el = Inr t)) \<longrightarrow>
        (\<exists>r. parse_card cfg d w c = (Inr (Some r), w)))
   \<and> (parse_card cfg d w c = (Inr (Some row), w') \<longrightarrow>
        text_lines d w c \<noteq> []
        \<and> (name_el d w c = None \<longrightarrow>
              name row = hd (text_lines d w c) \<and> name row \<noteq> [] \<and>
              (\<forall>sel\<in>set name_selectors.
                 \<exists>e. el_find_element d w (scope_el d w c) CSS_SELECTOR sel = Inl e))
        \<and> (\<forall>el. name_el d w c = Some el \<longrightarrow>
              (\<exists>i<length name_selectors.
                  el_find_element d w (scope_el d w c) CSS_SELECTOR (name_selectors ! i) = Inr el \<and>
                  (\<forall>j<i. \<exists>e. el_find_element d w (scope_el d w c) CSS_SELECTOR
                                 (name_selectors ! j) = Inl e))
              \<and> (\<exists>t. el_text d w el = Inr t \<and>
                    name row = (if t = [] then hd (text_lines d w c) else py_strip t) \<and>
                    (t = [] \<or> py_strip t \<noteq> [] \<longrightarrow> name row \<noteq> []))))"
proof -
  have returns: "\<exists>r. parse_card cfg d w c = (Inr (Some r), w)"
    if "text_lines d w c \<noteq> [] \<and> \<not> allow_profile_nav cfg \<and>
      (\<forall>el. name_el d w c = Some el \<longrightarrow> (\<exists>t. el_text d w el = Inr t))"
    using that parse_card_returns [of d w c cfg] by blast
  have shape: "text_lines d w c \<noteq> []
        \<and> (name_el d w c = None \<longrightarrow>
              name row = hd (text_lines d w c) \<and> name row \<noteq> [] \<and>
              (\<forall>sel\<in>set name_selectors.
                 \<exists>e. el_find_element d w (scope_el d w c) CSS_SELECTOR sel = Inl e))
        \<and> (\<forall>el. name_el d w c = Some el \<longrightarrow>
              (\<exists>i<length name_selectors.
                  el_find_element d w (scope_el d w c) CSS_SELECTOR (name_selectors ! i) = Inr el \<and>
                  (\<forall>j<i. \<exists>e. el_find_element d w (scope_el d w c) CSS_SELECTOR
                                 (name_selectors ! j) = Inl e))
              \<and> (\<exists>t. el_text d w el = Inr t \<and>
                    name row = (if t = [] then hd (text_lines d w c) else py_strip t) \<and>
                    (t = [] \<or> py_strip t \<noteq> [] \<longrightarrow> name row \<noteq> [])))"
    if row: "parse_card cfg d w c = (Inr (Some row), w')"
  proof -
    from parse_card_Some [OF row] obtain first others
      where lines: "text_lines d w c = first # others"
        and nm: "card_name d w (name_el d w c) first = Inr (name row)" by blast
    have first: "first \<noteq> []"
      using lines stripped_lines_nonempty [of first "safe_text d w (scope_el d w c)"]
      by (simp add: text_lines_def)
    from lines have 1: "text_lines d w c \<noteq> []" by simp
    have 2: "name row = hd (text_lines d w c) \<and> name row \<noteq> [] \<and>
              (\<forall>sel\<in>set name_selectors.
                 \<exists>e. el_find_element d w (scope_el d w c) CSS_SELECTOR sel = Inl e)"
      if none: "name_el d w c = None"
    proof -
      from none nm lines first have "name row = hd (text_lines d w c) \<and> name row \<noteq> []"
        by (auto simp: card_name_def)
      moreover from none have "\<forall>sel\<in>set name_selectors.
          \<exists>e. el_find_element d w (scope_el d w c) CSS_SELECTOR sel = Inl e"
        unfolding name_el_def by (rule first_found_None)
      ultimately show ?thesis by blast
    qed
    have 3: "(\<exists>i<length name_selectors.
                  el_find_element d w (scope_el d w c) CSS_SELECTOR (name_selectors ! i) = Inr el \<and>
                  (\<forall>j<i. \<exists>e. el_find_element d w (scope_el d w c) CSS_SELECTOR
                                 (name_selectors ! j) = Inl e))
              \<and> (\<exists>t. el_text d w el = Inr t \<and>
                    name row = (if t = [] then hd (text_lines d w c) else py_strip t) \<and>
                    (t = [] \<or> py_strip t \<noteq> [] \<longrightarrow> name row \<noteq> []))"
      if some: "name_el d w c = Some el" for el
    proof -
      from some have cascade: "\<exists>i<length name_selectors.
                  el_find_element d w (scope_el d w c) CSS_SELECTOR (name_selectors ! i) = Inr el \<and>
                  (\<forall>j<i. \<exists>e. el_find_element d w (scope_el d w c) CSS_SELECTOR
                                 (name_selectors ! j) = Inl e)"
        unfolding name_el_def by (rule first_found_Some)
      from nm some obtain t where t: "el_text d w el = Inr t"
        by (cases "el_text d w el") (auto simp: card_name_def)
      with nm some lines
      have n: "name row = (if t = [] then hd (text_lines d w c) else py_strip t)"
        by (auto simp: card_name_def)
      with lines first have "t = [] \<or> py_strip t \<noteq> [] \<longrightarrow> name row \<noteq> []" by auto
      with cascade t n show ?thesis by blast
    qed
    from 1 2 3 show ?thesis by blast
  qed
  from returns shape show ?thesis by blast
qed

theorem name_of_card_witness:
  "text_lines sim title_card 1 = [''Doe, Jane'', ''Physics'', ''Staff'']
   \<and> name_el sim title_card 1 = Some 4
   \<and> el_text sim title_card 4 = Inr '' Doe, Jane ''
   \<and> parse_card default_config sim title_card 1 =
       (Inr (Some \<lparr>name = ''Doe, Jane'', email = [], affiliation = ''Staff'',
                   department = ''Physics''\<rparr>), title_card)
   \<and> py_strip '' Doe, Jane '' = ''Doe, Jane''
   \<and> name_el sim jane_card 1 = None
   \<and> parse_card default_config sim jane_card 1 =
       (Inr (Some \<lparr>name = ''Jane Doe'', email = [], affiliation = ''Student - Foo'',
                   department = ''Dept of X''\<rparr>), jane_card)
   \<and> hd (text_lines sim jane_card 1) = ''Jane Doe''"
proof -
  have title_lines: "text_lines sim title_card 1 = [''Doe, Jane'', ''Physics'', ''Staff'']"
    by code_simp
  have title_el: "name_el sim title_card 1 = Some 4"
    by code_simp
  have title_text: "el_text sim title_card 4 = Inr '' Doe, Jane ''"
    by code_simp
  have title_row: "parse_card default_config sim title_card 1 =
       (Inr (Some \<lparr>name = ''Doe, Jane'', email = [], affiliation = ''Staff'',
                   department = ''Physics''\<rparr>), title_card)"
    by code_simp
  have jane_el: "name_el sim jane_card 1 = None"
    by code_simp
  have jane_row: "parse_card default_config sim jane_card 1 =
       (Inr (Some \<lparr>name = ''Jane Doe'', email = [], affiliation = ''Student - Foo'',
                   department = ''Dept of X''\<rparr>), jane_card)"
    by code_simp
  have names: "name \<lparr>name = ''Jane Doe'', email = [], affiliation = ''Student - Foo'',
                   department = ''Dept of X''\<rparr> = ''Jane Doe''"
     "name \<lparr>name = ''Doe, Jane'', email = [], affiliation = ''Staff'',
                   department = ''Physics''\<rparr> = ''Doe, Jane''"
    by simp_all
  from name_of_card [of sim jane_card 1 default_config
      "\<lparr>name = ''Jane Doe'', email = [], affiliation = ''Student - Foo'',
         department = ''Dept of X''\<rparr>" jane_card] jane_row jane_el names(1)
  have jane_first: "hd (text_lines sim jane_card 1) = ''Jane Doe''"
    by metis
  from name_of_card [of sim title_card 1 default_config
      "\<lparr>name = ''Doe, Jane'', email = [], affiliation = ''Staff'',
         department = ''Physics''\<rparr>" title_card] title_row title_el title_text names(2)
  have "''Doe, Jane'' = (if '' Doe, Jane '' = [] then hd (text_lines sim title_card 1)
                         else py_strip '' Doe, Jane '')"
    by (metis sum.inject(2))
  then have title_strip: "py_strip '' Doe, Jane '' = ''Doe, Jane''"
    by simp
  from title_lines title_el title_text title_row title_strip jane_el jane_row jane_first
  show ?thesis by blast
qed

text \<open>
  C6, as stated, fails: the name is not the first non-empty text of the cascade. On a card
  that reads \<^verbatim>\<open>Faculty\<close>, \<^verbatim>\<open>Jane Doe\<close>, \<^verbatim>\<open>Physics\<close>, whose title link has no text and
  whose heading holds \<^verbatim>\<open>Jane Doe\<close>, the cascade stops at the title link and the name
  becomes the first text line, \<^verbatim>\<open>Faculty\<close>.
\<close>

theorem name_of_card_counterexample:
  "parse_card default_config sim badge_card 1 =
     (Inr (Some \<lparr>name = ''Faculty'', email = [], affiliation = ''Physics'',
                 department = ''Jane Doe''\<rparr>), badge_card)
   \<and> text_lines sim badge_card 1 = [''Faculty'', ''Jane Doe'', ''Physics'']
   \<and> name_el sim badge_card 1 = Some 2
   \<and> el_text sim badge_card 2 = Inr []
   \<and> el_find_element sim badge_card (scope_el sim badge_card 1) CSS_SELECTOR ''h3'' = Inr 3
   \<and> el_text sim badge_card 3 = Inr ''Jane Doe''
   \<and> spec_name sim badge_card 1 = ''Jane Doe''"
  by code_simp

lemma first_found_fails:
  "\<forall>sel\<in>set sels. \<exists>e. el_find_element d w el CSS_SELECTOR sel = Inl e \<Longrightarrow>
   first_found d w el sels = None"
  by (induction sels) auto

text \<open>
  C8, as amended. A card whose scope text lines are exactly \<^verbatim>\<open>Jane Doe\<close>, \<^verbatim>\<open>Dept of X\<close>,
  \<^verbatim>\<open>Student - Foo\<close>, in whose scope no selector of the title cascade finds an element and
  the query for mail anchors finds none, and whose scope has no description sub-element,
  or one whose first sub-line is \<^verbatim>\<open>Dept of X\<close>, yields the record with name
  \<^verbatim>\<open>Jane Doe\<close>, an empty email, department \<^verbatim>\<open>Dept of X\<close> and affiliation
  \<^verbatim>\<open>Student - Foo\<close>, and leaves the session as it was, whatever the configuration.
\<close>

theorem jane_doe_record:
  assumes "text_lines d w c = [''Jane Doe'', ''Dept of X'', ''Student - Foo'']"
    and "\<forall>sel\<in>set name_selectors.
           \<exists>e. el_find_element d w (scope_el d w c) CSS_SELECTOR sel = Inl e"
    and "el_find_elements d w (scope_el d w c) CSS_SELECTOR mailto_selector = Inr []"
    and "(\<exists>e. el_find_element d w (scope_el d w c) CSS_SELECTOR desc_selector = Inl e) \<or>
         (\<exists>desc others.
            el_find_element d w (scope_el d w c) CSS_SELECTOR desc_selector = Inr desc \<and>
            stripped_lines (safe_text d w desc) = ''Dept of X'' # others)"
  shows "parse_card cfg d w c =
     (Inr (Some \<lparr>name = ''Jane Doe'', email = [], affiliation = ''Student - Foo'',
                 department = ''Dept of X''\<rparr>), w)"
proof -
  let ?scope = "scope_el d w c"
  let ?rest = "[''Dept of X'', ''Student - Foo'']"
  from assms(1) have lines: "stripped_lines (safe_text d w ?scope) =
      [''Jane Doe'', ''Dept of X'', ''Student - Foo'']"
    by (simp add: text_lines_def)
  from assms(2) have title: "first_found d w ?scope name_selectors = None"
    by (rule first_found_fails)
  have rest: "filter (\<lambda>l. l \<noteq> ''Jane Doe'')
      [''Jane Doe'', ''Dept of X'', ''Student - Foo''] = ?rest"
    by code_simp
  have role: "find is_role_line (take 2 (drop 1 ?rest)) = Some ''Student - Foo''"
    by code_simp
  have first: "line_or_empty ?rest 0 = ''Dept of X''"
    by code_simp
  have da: "department_affiliation d w ?scope ?rest = (''Dept of X'', ''Student - Foo'')"
    using assms(4)
  proof
    assume "\<exists>e. el_find_element d w ?scope CSS_SELECTOR desc_selector = Inl e"
    then obtain e where "el_find_element d w ?scope CSS_SELECTOR desc_selector = Inl e" by blast
    from department_affiliation_missing [OF this, of ?rest] role first show ?thesis
      by simp
  next
    assume "\<exists>desc others.
            el_find_element d w ?scope CSS_SELECTOR desc_selector = Inr desc \<and>
            stripped_lines (safe_text d w desc) = ''Dept of X'' # others"
    then obtain desc others
      where found: "el_find_element d w ?scope CSS_SELECTOR desc_selector = Inr desc"
        and sub: "stripped_lines (safe_text d w desc) = ''Dept of X'' # others" by blast
    from department_affiliation_found [OF found, of ?rest] role sub show ?thesis
      by (simp add: line_or_empty_def)
  qed
  from assms(3) have linked: "card_mailto d w ?scope = None"
    by (simp add: card_mailto_def mailto_selector_def)
  have token: "extract_email_from_text
      (py_join [CHR 0x0A] [''Jane Doe'', ''Dept of X'', ''Student - Foo'']) = None"
    by code_simp
  have nav: "profile_email cfg d w None None = (Inr None, w)"
    by (simp add: profile_email_def)
  show ?thesis
    unfolding parse_card_def Let_def lines title
    by (simp add: card_name_def rest da linked token nav truthy_def
          del: filter.simps py_join.simps)
qed

theorem jane_doe_record_witness:
  "text_lines sim jane_card 1 = [''Jane Doe'', ''Dept of X'', ''Student - Foo'']
   \<and> name_el sim jane_card 1 = None
   \<and> el_find_elements sim jane_card (scope_el sim jane_card 1) CSS_SELECTOR mailto_selector =
       Inr []
   \<and> el_find_element sim jane_card (scope_el sim jane_card 1) CSS_SELECTOR desc_selector =
       Inl NoSuchElementException
   \<and> parse_card default_config sim jane_card 1 =
       (Inr (Some \<lparr>name = ''Jane Doe'', email = [], affiliation = ''Student - Foo'',
                   department = ''Dept of X''\<rparr>), jane_card)
   \<and> text_lines sim jane_desc_card 1 = [''Jane Doe'', ''Dept of X'', ''Student - Foo'']
   \<and> el_find_element sim jane_desc_card (scope_el sim jane_desc_card 1) CSS_SELECTOR
        desc_selector = Inr 2
   \<and> stripped_lines (safe_text sim jane_desc_card 2) = [''Dept of X'', ''Student - Foo'']
   \<and> parse_card default_config sim jane_desc_card 1 =
       (Inr (Some \<lparr>name = ''Jane Doe'', email = [], affiliation = ''Student - Foo'',
                   department = ''Dept of X''\<rparr>), jane_desc_card)"
proof -
  have lines: "text_lines sim jane_card 1 = [''Jane Doe'', ''Dept of X'', ''Student - Foo'']"
    by code_simp
  have title: "\<forall>sel\<in>set name_selectors.
      \<exists>e. el_find_element sim jane_card (scope_el sim jane_card 1) CSS_SELECTOR sel = Inl e"
    by (simp add: name_selectors_def scope_el_def scope_selectors_def jane_card_def sim_defs)
  have none: "name_el sim jane_card 1 = None"
    by code_simp
  have anchors: "el_find_elements sim jane_card (scope_el sim jane_card 1) CSS_SELECTOR
      mailto_selector = Inr []"
    by code_simp
  have desc: "el_find_element sim jane_card (scope_el sim jane_card 1) CSS_SELECTOR
      desc_selector = Inl NoSuchElementException"
    by code_simp
  have lines': "text_lines sim jane_desc_card 1 =
      [''Jane Doe'', ''Dept of X'', ''Student - Foo'']"
    by code_simp
  have title': "\<forall>sel\<in>set name_selectors.
      \<exists>e. el_find_element sim jane_desc_card (scope_el sim jane_desc_card 1) CSS_SELECTOR sel =
          Inl e"
    by (simp add: name_selectors_def scope_el_def scope_selectors_def jane_desc_card_def
          desc_selector_def sim_defs)
  have anchors': "el_find_elements sim jane_desc_card (scope_el sim jane_desc_card 1)
      CSS_SELECTOR mailto_selector = Inr []"
    by code_simp
  have desc': "el_find_element sim jane_desc_card (scope_el sim jane_desc_card 1) CSS_SELECTOR
      desc_selector = Inr 2"
    by code_simp
  have sub': "stripped_lines (safe_text sim jane_desc_card 2) =
      [''Dept of X'', ''Student - Foo'']"
    by code_simp
  from desc have absent: "(\<exists>e. el_find_element sim jane_card (scope_el sim jane_card 1)
        CSS_SELECTOR desc_selector = Inl e) \<or>
      (\<exists>desc others. el_find_element sim jane_card (scope_el sim jane_card 1) CSS_SELECTOR
          desc_selector = Inr desc \<and>
        stripped_lines (safe_text sim jane_card desc) = ''Dept of X'' # others)"
    by blast
  from desc' sub' have present: "(\<exists>e. el_find_element sim jane_desc_card
        (scope_el sim jane_desc_card 1) CSS_SELECTOR desc_selector = Inl e) \<or>
      (\<exists>desc others. el_find_element sim jane_desc_card (scope_el sim jane_desc_card 1)
          CSS_SELECTOR desc_selector = Inr desc \<and>
        stripped_lines (safe_text sim jane_desc_card desc) = ''Dept of X'' # others)"
    by blast
  note jane_doe_record [OF lines title anchors absent, of default_config]
    jane_doe_record [OF lines' title' anchors' present, of default_config]
  with lines none anchors desc lines' desc' sub' show ?thesis by blast
qed

text \<open>
  C8, as stated, fails: it leaves the description sub-element open. A card with the three
  text lines, no title element, no mail anchor and no address in its text, whose
  description element holds the last line only, gets the department \<^verbatim>\<open>Student - Foo\<close>.
\<close>

theorem jane_doe_record_counterexample:
  "text_lines sim jane_odd_card 1 = [''Jane Doe'', ''Dept of X'', ''Student - Foo'']
   \<and> name_el sim jane_odd_card 1 = None
   \<and> el_find_elements sim jane_odd_card (scope_el sim jane_odd_card 1) CSS_SELECTOR
        mailto_selector = Inr []
   \<and> extract_email_from_text (py_join [CHR 0x0A] (text_lines sim jane_odd_card 1)) = None
   \<and> parse_card default_config sim jane_odd_card 1 =
       (Inr (Some \<lparr>name = ''Jane Doe'', email = [], affiliation = ''Student - Foo'',
                   department = ''Student - Foo''\<rparr>), jane_odd_card)"
  by code_simp

section \<open>Pagination controller: the claims\<close>

lemma click_first_button_Some:
  "click_first_button d w btns = Some w' \<Longrightarrow>
   \<exists>btn\<in>set btns. \<exists>w1. el_is_displayed d w btn = Inr True \<and> el_is_enabled d w btn = Inr True \<and>
      el_click d w btn = Inr w1 \<and> w' = time_sleep d w1 PAGE_PAUSE_SECONDS"
  by (induction btns) (auto split: sum.splits if_splits)

lemma click_first_button_None:
  "click_first_button d w btns = None \<Longrightarrow> btn \<in> set btns \<Longrightarrow>
   el_is_displayed d w btn = Inr True \<Longrightarrow> el_is_enabled d w btn = Inr True \<Longrightarrow>
   \<exists>e. el_click d w btn = Inl e"
  by (induction btns) (auto split: sum.splits if_splits)

lemma next_button_loop_True:
  "next_button_loop d w sels = (Inr True, w') \<Longrightarrow>
   \<exists>sel\<in>set sels. \<exists>btns. find_elements d w CSS_SELECTOR sel = Inr btns \<and>
      click_first_button d w btns = Some w'"
  by (induction sels) (auto split: sum.splits option.splits)

lemma next_button_loop_False:
  "next_button_loop d w sels = (Inr False, w') \<Longrightarrow>
   w' = w \<and> (\<forall>sel\<in>set sels. \<exists>btns. find_elements d w CSS_SELECTOR sel = Inr btns \<and>
      click_first_button d w btns = None)"
  by (induction sels) (auto split: sum.splits option.splits)

lemma next_button_loop_raises:
  "next_button_loop d w sels = (Inl e, w') \<Longrightarrow>
   w' = w \<and> (\<exists>sel\<in>set sels. find_elements d w CSS_SELECTOR sel = Inl e)"
  by (induction sels) (auto split: sum.splits option.splits)

lemma next_button_loop_clicked:
  assumes "next_button_loop d w next_candidates = (Inr True, w')"
  shows "\<exists>el w1. next_control d w el \<and> el_click d w el = Inr w1 \<and>
           w' = time_sleep d w1 PAGE_PAUSE_SECONDS"
proof -
  from next_button_loop_True [OF assms] obtain sel btns
    where sel: "sel \<in> set next_candidates"
      and btns: "find_elements d w CSS_SELECTOR sel = Inr btns"
      and hit: "click_first_button d w btns = Some w'" by blast
  from click_first_button_Some [OF hit] obtain btn w1
    where "btn \<in> set btns" "el_is_displayed d w btn = Inr True"
      "el_is_enabled d w btn = Inr True" "el_click d w btn = Inr w1"
      "w' = time_sleep d w1 PAGE_PAUSE_SECONDS" by blast
  with sel btns have "next_control d w btn \<and> el_click d w btn = Inr w1 \<and>
      w' = time_sleep d w1 PAGE_PAUSE_SECONDS"
    by (auto simp: next_control_def intro!: bexI [of _ sel])
  then show ?thesis by blast
qed

lemma next_button_loop_none_clicks:
  assumes "next_button_loop d w next_candidates = (Inr False, w')" and "next_control d w el"
  shows "\<not> clicks d w el"
proof -
  from assms(2) have shown: "el_is_displayed d w el = Inr True" "el_is_enabled d w el = Inr True"
    by (simp_all add: next_control_def)
  from assms(2) obtain sel where sel: "sel \<in> set next_candidates"
    and found: "case find_elements d w CSS_SELECTOR sel of
                  Inr btns \<Rightarrow> el \<in> set btns | Inl e \<Rightarrow> False"
    unfolding next_control_def by blast
  then obtain btns where btns: "find_elements d w CSS_SELECTOR sel = Inr btns"
    and el: "el \<in> set btns"
    by (cases "find_elements d w CSS_SELECTOR sel") auto
  from next_button_loop_False [OF assms(1)] sel btns
  have "click_first_button d w btns = None" by auto
  from click_first_button_None [OF this el shown] show ?thesis
    by (auto simp: clicks_def)
qed

lemma click_next_cases:
  "(\<exists>l w1. numeric_target d w = Inr (Some l) \<and> el_click d w l = Inr w1 \<and>
      click_next_if_available d w = (Inr True, time_sleep d w1 PAGE_PAUSE_SECONDS))
   \<or> ((\<forall>l. numeric_target d w = Inr (Some l) \<longrightarrow> \<not> clicks d w l) \<and>
       click_next_if_available d w = next_button_loop d w next_candidates)"
  by (auto simp: click_next_if_available_def clicks_def split: sum.splits option.splits)

lemma scrape_loop_ends_on_False:
  assumes "scrape_loop cfg d w sink page_index = Some y"
  shows "\<forall>rows w' n. y = (None, rows, w', n) \<longrightarrow>
           (\<exists>w0. click_next_if_available d w0 = (Inr False, w'))"
proof (rule scrape_loop.raw_induct
    [where P = "\<lambda>cfg d w sink page_index y. \<forall>rows w' n. y = (None, rows, w', n) \<longrightarrow>
           (\<exists>w0. click_next_if_available d w0 = (Inr False, w'))", OF _ assms])
  fix loop :: "config \<Rightarrow> 'a driver \<Rightarrow> 'a \<Rightarrow> string list list \<Rightarrow> nat \<Rightarrow>
      (error option \<times> string list list \<times> 'a \<times> nat) option"
  fix cfg d w sink page_index y
  assume IH: "\<And>cfg d w sink page_index y. loop cfg d w sink page_index = Some y \<Longrightarrow>
      \<forall>rows w' n. y = (None, rows, w', n) \<longrightarrow>
           (\<exists>w0. click_next_if_available d w0 = (Inr False, w'))"
  assume body: "(case discover cfg d w of
        None \<Rightarrow> None
      | Some (cards, w1) \<Rightarrow>
          (case extract_cards cfg d w1 cards sink of
             (Some x, sink1, w2) \<Rightarrow> Some (Some x, sink1, w2, page_index)
           | (None, sink1, w2) \<Rightarrow>
               (case click_next_if_available d w2 of
                  (Inl x, w3) \<Rightarrow> Some (Some x, sink1, w3, page_index)
                | (Inr advanced, w3) \<Rightarrow>
                    if advanced
                    then loop cfg d (time_sleep d w3 1) sink1 (page_index + 1)
                    else Some (None, sink1, w3, page_index)))) = Some y"
  from body obtain cards w1 where disc: "discover cfg d w = Some (cards, w1)"
    by (cases "discover cfg d w") auto
  obtain x sink1 w2 where ext: "extract_cards cfg d w1 cards sink = (x, sink1, w2)"
    by (cases "extract_cards cfg d w1 cards sink") auto
  obtain r w3 where nxt: "click_next_if_available d w2 = (r, w3)"
    by (cases "click_next_if_available d w2") auto
  show "\<forall>rows w' n. y = (None, rows, w', n) \<longrightarrow>
           (\<exists>w0. click_next_if_available d w0 = (Inr False, w'))"
  proof (cases x)
    case (Some e)
    with body disc ext show ?thesis by auto
  next
    case None
    show ?thesis
    proof (cases r)
      case (Inl e)
      with body disc ext nxt None show ?thesis by auto
    next
      case (Inr advanced)
      show ?thesis
      proof (cases advanced)
        case True
        with body disc ext nxt None Inr
        have "loop cfg d (time_sleep d w3 1) sink1 (page_index + 1) = Some y" by simp
        then show ?thesis by (rule IH)
      next
        case False
        with body disc ext nxt None Inr have "y = (None, sink1, w3, page_index)" by simp
        with nxt Inr False show ?thesis by auto
      qed
    qed
  qed
qed


lemma py_int_isdigit:
  "py_int s = Inr k \<Longrightarrow> py_isdigit s"
  by (auto simp: py_int_def py_isdigit_def list_all_iff split: if_splits)

lemma first_link_two:
  "first_link d w [xp1, xp2] = Inr (Some el) \<longleftrightarrow>
     (\<exists>ls. find_elements d w XPATH xp1 = Inr (el # ls) \<or>
           find_elements d w XPATH xp1 = Inr [] \<and> find_elements d w XPATH xp2 = Inr (el # ls))"
  by (auto split: sum.splits list.splits)

lemma numeric_target_iff:
  "numeric_target d w = Inr (Some el) \<longleftrightarrow>
     (\<exists>a as t k s ls.
         find_active_page_els d w candidates_active = Inr (a # as) \<and>
         el_text d w a = Inr t \<and> py_int (py_strip t) = Inr k \<and> py_str (k + 1) = Inr s \<and>
         (find_elements d w XPATH (next_link_xpath s) = Inr (el # ls) \<or>
          find_elements d w XPATH (next_link_xpath s) = Inr [] \<and>
          find_elements d w XPATH (generic_xpath s) = Inr (el # ls)))"
  (is "?lhs \<longleftrightarrow> ?rhs")
proof
  assume l: ?lhs
  from l obtain a as where els: "find_active_page_els d w candidates_active = Inr (a # as)"
    by (auto simp: numeric_target_def split: sum.splits list.splits)
  with l obtain t where t: "el_text d w a = Inr t"
    by (auto simp: numeric_target_def split: sum.splits)
  with l els obtain k where k: "py_int (py_strip t) = Inr k"
    by (auto simp: numeric_target_def Let_def split: sum.splits if_splits)
  with l els t obtain s where s: "py_str (k + 1) = Inr s"
    by (auto simp: numeric_target_def Let_def split: sum.splits if_splits)
  with l els t k
  have "first_link d w [next_link_xpath s, generic_xpath s] = Inr (Some el)"
    by (auto simp: numeric_target_def Let_def split: if_splits)
  then have "\<exists>ls. find_elements d w XPATH (next_link_xpath s) = Inr (el # ls) \<or>
            find_elements d w XPATH (next_link_xpath s) = Inr [] \<and>
            find_elements d w XPATH (generic_xpath s) = Inr (el # ls)"
    by (simp only: first_link_two)
  with els t k s show ?rhs by blast
next
  assume ?rhs
  then obtain a as t k s ls
    where els: "find_active_page_els d w candidates_active = Inr (a # as)"
      and t: "el_text d w a = Inr t"
      and k: "py_int (py_strip t) = Inr k"
      and s: "py_str (k + 1) = Inr s"
      and links: "find_elements d w XPATH (next_link_xpath s) = Inr (el # ls) \<or>
          find_elements d w XPATH (next_link_xpath s) = Inr [] \<and>
          find_elements d w XPATH (generic_xpath s) = Inr (el # ls)"
    by blast
  from links have "first_link d w [next_link_xpath s, generic_xpath s] = Inr (Some el)"
    by (simp only: first_link_two) blast
  moreover from k have "py_isdigit (py_strip t)" by (rule py_int_isdigit)
  ultimately show ?lhs using els t k s
    by (simp add: numeric_target_def Let_def)
qed

lemma click_first_button_iff:
  "(\<exists>w'. click_first_button d w btns = Some w') \<longleftrightarrow>
     (\<exists>btn\<in>set btns. el_is_displayed d w btn = Inr True \<and> el_is_enabled d w btn = Inr True \<and>
        clicks d w btn)"
  by (induction btns) (auto simp: clicks_def split: sum.splits if_splits)

lemma found_by_next_lookups_found:
  "found_by_next_lookups d w sels el \<Longrightarrow>
   \<exists>sel\<in>set sels. case find_elements d w CSS_SELECTOR sel of
       Inr btns \<Rightarrow> el \<in> set btns | Inl e \<Rightarrow> False"
  by (induction sels) (auto split: sum.splits)

lemma found_when_lookups_return:
  "\<forall>sel\<in>set sels. \<exists>btns. find_elements d w CSS_SELECTOR sel = Inr btns \<Longrightarrow>
   \<exists>sel\<in>set sels. case find_elements d w CSS_SELECTOR sel of
       Inr btns \<Rightarrow> el \<in> set btns | Inl e \<Rightarrow> False \<Longrightarrow>
   found_by_next_lookups d w sels el"
  by (induction sels) (auto split: sum.splits)

lemma next_button_loop_True_reached:
  "next_button_loop d w sels = (Inr True, w') \<Longrightarrow>
   \<exists>el w1. found_by_next_lookups d w sels el \<and> el_is_displayed d w el = Inr True \<and>
      el_is_enabled d w el = Inr True \<and> el_click d w el = Inr w1 \<and>
      w' = time_sleep d w1 PAGE_PAUSE_SECONDS"
proof (induction sels)
  case Nil
  then show ?case by simp
next
  case (Cons sel sels)
  show ?case
  proof (cases "find_elements d w CSS_SELECTOR sel")
    case (Inl e)
    with Cons.prems show ?thesis by simp
  next
    case (Inr btns)
    show ?thesis
    proof (cases "click_first_button d w btns")
      case None
      with Cons.prems Inr have "next_button_loop d w sels = (Inr True, w')" by simp
      from Cons.IH [OF this] Inr show ?thesis by auto
    next
      case (Some w2)
      with Cons.prems Inr have "click_first_button d w btns = Some w'" by simp
      from click_first_button_Some [OF this] Inr show ?thesis by auto
    qed
  qed
qed

lemma next_button_loop_True_iff:
  "(\<exists>w'. next_button_loop d w sels = (Inr True, w')) \<longleftrightarrow>
     (\<exists>el. found_by_next_lookups d w sels el \<and> el_is_displayed d w el = Inr True \<and>
        el_is_enabled d w el = Inr True \<and> clicks d w el)"
proof (induction sels)
  case Nil
  then show ?case by simp
next
  case (Cons sel sels)
  show ?case
  proof (cases "find_elements d w CSS_SELECTOR sel")
    case (Inl e)
    then show ?thesis by simp
  next
    case (Inr btns)
    show ?thesis
    proof (cases "click_first_button d w btns")
      case None
      with click_first_button_iff [of d w btns]
      have "\<not> (\<exists>btn\<in>set btns. el_is_displayed d w btn = Inr True \<and>
          el_is_enabled d w btn = Inr True \<and> clicks d w btn)"
        by simp
      with None Inr Cons.IH show ?thesis by auto
    next
      case (Some w2)
      with click_first_button_iff [of d w btns]
      have "\<exists>btn\<in>set btns. el_is_displayed d w btn = Inr True \<and>
          el_is_enabled d w btn = Inr True \<and> clicks d w btn"
        by blast
      with Some Inr show ?thesis by auto
    qed
  qed
qed

lemma next_button_loop_False_iff:
  "(\<exists>w'. next_button_loop d w sels = (Inr False, w')) \<longleftrightarrow>
     (\<forall>sel\<in>set sels. \<exists>btns. find_elements d w CSS_SELECTOR sel = Inr btns \<and>
        click_first_button d w btns = None)"
  by (induction sels) (auto split: sum.splits option.splits)

lemma next_button_loop_False_controls:
  "(\<exists>w'. next_button_loop d w next_candidates = (Inr False, w')) \<longleftrightarrow>
     (\<forall>sel\<in>set next_candidates. \<exists>btns. find_elements d w CSS_SELECTOR sel = Inr btns) \<and>
     (\<forall>el. next_control d w el \<longrightarrow> \<not> clicks d w el)"
  (is "?lhs \<longleftrightarrow> ?rhs")
proof
  assume ?lhs
  then obtain w' where loop: "next_button_loop d w next_candidates = (Inr False, w')" by blast
  from next_button_loop_False [OF loop]
  have "\<forall>sel\<in>set next_candidates. \<exists>btns. find_elements d w CSS_SELECTOR sel = Inr btns"
    by blast
  moreover have "\<not> clicks d w el" if "next_control d w el" for el
    using next_button_loop_none_clicks [OF loop that] .
  ultimately show ?rhs by blast
next
  assume r: ?rhs
  have "\<exists>btns. find_elements d w CSS_SELECTOR sel = Inr btns \<and>
        click_first_button d w btns = None" if sel: "sel \<in> set next_candidates" for sel
  proof -
    from r sel obtain btns where btns: "find_elements d w CSS_SELECTOR sel = Inr btns"
      by blast
    have "click_first_button d w btns = None"
    proof (cases "click_first_button d w btns")
      case None
      then show ?thesis .
    next
      case (Some w')
      from click_first_button_Some [OF Some] obtain btn w1
        where "btn \<in> set btns" "el_is_displayed d w btn = Inr True"
          "el_is_enabled d w btn = Inr True" "el_click d w btn = Inr w1" by blast
      with sel btns have "next_control d w btn \<and> clicks d w btn"
        by (auto simp: next_control_def clicks_def intro!: bexI [of _ sel])
      with r show ?thesis by blast
    qed
    with btns show ?thesis by blast
  qed
  then show ?lhs by (simp only: next_button_loop_False_iff) blast
qed

text \<open>
  C1, as amended. \<^verbatim>\<open>click_next_if_available\<close> returns true exactly when it clicks with
  success either the link of the numeric path or a displayed and enabled Next control that
  the lookups of Next controls find before any of them raises; the session is then the one
  after that click and the pause. The link of the numeric path is the first one that the
  XPath for a pagination link labelled with the active page number plus one finds, or, when
  that finds none, the first one that the XPath for such a link in the pagination container
  finds; a successful click on it makes the function return true at once. The function
  returns false exactly when the three lookups of Next controls all return and no such
  control yields a successful click, and the session is then unchanged. It raises exactly
  when one of the three lookups raises and no such control yields a successful click; the
  exception is that of a lookup of a Next control and the session is unchanged. A numeric
  path that does not click, whatever the reason, hands over to the Next fallback. The loop
  of \<^verbatim>\<open>scrape_results\<close> ends without an exception only after a call that returned false,
  and a call that returns false ends it.
\<close>

theorem click_next_true_iff_clicked:
  "(fst (click_next_if_available d w) = Inr True \<longleftrightarrow>
      (\<exists>el. (numeric_target d w = Inr (Some el) \<or> reached_next_control d w el) \<and>
            clicks d w el))
   \<and> (click_next_if_available d w = (Inr True, w') \<longrightarrow>
        (\<exists>el w1. (numeric_target d w = Inr (Some el) \<or> reached_next_control d w el) \<and>
           el_click d w el = Inr w1 \<and> w' = time_sleep d w1 PAGE_PAUSE_SECONDS))
   \<and> (fst (click_next_if_available d w) = Inr False \<longleftrightarrow>
        (\<forall>sel\<in>set next_candidates. \<exists>btns. find_elements d w CSS_SELECTOR sel = Inr btns) \<and>
        (\<forall>el. numeric_target d w = Inr (Some el) \<or> reached_next_control d w el \<longrightarrow>
              \<not> clicks d w el))
   \<and> (click_next_if_available d w = (Inr False, w') \<longrightarrow> w' = w)
   \<and> (click_next_if_available d w = (Inl e, w') \<longrightarrow>
        w' = w \<and> (\<exists>sel\<in>set next_candidates. find_elements d w CSS_SELECTOR sel = Inl e))
   \<and> ((\<exists>e. fst (click_next_if_available d w) = Inl e) \<longleftrightarrow>
        (\<exists>sel\<in>set next_candidates. \<exists>e. find_elements d w CSS_SELECTOR sel = Inl e) \<and>
        (\<forall>el. numeric_target d w = Inr (Some el) \<or> reached_next_control d w el \<longrightarrow>
              \<not> clicks d w el))
   \<and> ((\<forall>l. numeric_target d w = Inr (Some l) \<longrightarrow> \<not> clicks d w l) \<longrightarrow>
        click_next_if_available d w = next_button_loop d w next_candidates)
   \<and> (numeric_target d w = Inr (Some l) \<and> el_click d w l = Inr after \<longrightarrow>
        click_next_if_available d w = (Inr True, time_sleep d after PAGE_PAUSE_SECONDS))
   \<and> (numeric_target d w = Inr (Some l) \<longleftrightarrow>
        (\<exists>a as t k s ls.
            find_active_page_els d w candidates_active = Inr (a # as) \<and>
            el_text d w a = Inr t \<and> py_int (py_strip t) = Inr k \<and> py_str (k + 1) = Inr s \<and>
            (find_elements d w XPATH (next_link_xpath s) = Inr (l # ls) \<or>
             find_elements d w XPATH (next_link_xpath s) = Inr [] \<and>
             find_elements d w XPATH (generic_xpath s) = Inr (l # ls))))
   \<and> (scrape_loop cfg d w sink page_index = Some (None, rows, final, n) \<longrightarrow>
        (\<exists>w0. click_next_if_available d w0 = (Inr False, final)))
   \<and> (discover cfg d w = Some (cards, w1) \<and>
       extract_cards cfg d w1 cards sink = (None, sink1, w2) \<and>
       click_next_if_available d w2 = (Inr False, w3) \<longrightarrow>
        scrape_loop cfg d w sink page_index = Some (None, sink1, w3, page_index))"
proof -
  note cases = click_next_cases [of d w]
  let ?numeric = "\<exists>l w1. numeric_target d w = Inr (Some l) \<and> el_click d w l = Inr w1 \<and>
      click_next_if_available d w = (Inr True, time_sleep d w1 PAGE_PAUSE_SECONDS)"
  let ?fallback = "(\<forall>l. numeric_target d w = Inr (Some l) \<longrightarrow> \<not> clicks d w l) \<and>
       click_next_if_available d w = next_button_loop d w next_candidates"
  have true_iff: "fst (click_next_if_available d w) = Inr True \<longleftrightarrow>
      (\<exists>el. (numeric_target d w = Inr (Some el) \<or> reached_next_control d w el) \<and>
            clicks d w el)"
    using cases
  proof
    assume ?numeric
    then show ?thesis by (auto simp: clicks_def)
  next
    assume fb: ?fallback
    have "fst (next_button_loop d w next_candidates) = Inr True \<longleftrightarrow>
        (\<exists>w'. next_button_loop d w next_candidates = (Inr True, w'))"
      by (cases "next_button_loop d w next_candidates") auto
    also have "\<dots> \<longleftrightarrow> (\<exists>el. reached_next_control d w el \<and> clicks d w el)"
      by (simp only: next_button_loop_True_iff reached_next_control_def conj_assoc)
    finally show ?thesis using fb by auto
  qed
  have true: "\<exists>el w1. (numeric_target d w = Inr (Some el) \<or> reached_next_control d w el) \<and>
         el_click d w el = Inr w1 \<and> w' = time_sleep d w1 PAGE_PAUSE_SECONDS"
    if r: "click_next_if_available d w = (Inr True, w')"
    using cases
  proof
    assume ?numeric
    with r show ?thesis by auto
  next
    assume ?fallback
    with r have "next_button_loop d w next_candidates = (Inr True, w')" by simp
    from next_button_loop_True_reached [OF this] show ?thesis
      by (auto simp: reached_next_control_def)
  qed
  have control: "fst (click_next_if_available d w) = Inr False \<longleftrightarrow>
        (\<forall>sel\<in>set next_candidates. \<exists>btns. find_elements d w CSS_SELECTOR sel = Inr btns) \<and>
        (\<forall>el. numeric_target d w = Inr (Some el) \<or> next_control d w el \<longrightarrow> \<not> clicks d w el)"
    using cases
  proof
    assume ?numeric
    then show ?thesis by (auto simp: clicks_def)
  next
    assume fb: ?fallback
    have "fst (next_button_loop d w next_candidates) = Inr False \<longleftrightarrow>
        (\<exists>w'. next_button_loop d w next_candidates = (Inr False, w'))"
      by (cases "next_button_loop d w next_candidates") auto
    also have "\<dots> \<longleftrightarrow>
        (\<forall>sel\<in>set next_candidates. \<exists>btns. find_elements d w CSS_SELECTOR sel = Inr btns) \<and>
        (\<forall>el. next_control d w el \<longrightarrow> \<not> clicks d w el)"
      by (rule next_button_loop_False_controls)
    finally show ?thesis using fb by auto
  qed
  have false: "w' = w" if r: "click_next_if_available d w = (Inr False, w')"
    using cases
  proof
    assume ?numeric
    with r show ?thesis by auto
  next
    assume ?fallback
    with r have "next_button_loop d w next_candidates = (Inr False, w')" by simp
    from next_button_loop_False [OF this] show ?thesis by simp
  qed
  have raised: "w' = w \<and> (\<exists>sel\<in>set next_candidates. find_elements d w CSS_SELECTOR sel = Inl e)"
    if r: "click_next_if_available d w = (Inl e, w')"
    using cases
  proof
    assume ?numeric
    with r show ?thesis by auto
  next
    assume ?fallback
    with r have "next_button_loop d w next_candidates = (Inl e, w')" by simp
    from next_button_loop_raises [OF this] show ?thesis .
  qed
  have reached: "next_control d w btn" if "reached_next_control d w btn" for btn
    using that found_by_next_lookups_found [of d w next_candidates btn]
    by (simp add: reached_next_control_def next_control_def)
  have found: "reached_next_control d w btn"
    if "\<forall>sel\<in>set next_candidates. \<exists>btns. find_elements d w CSS_SELECTOR sel = Inr btns"
      and "next_control d w btn" for btn
    using that found_when_lookups_return [of next_candidates d w btn]
    by (simp add: reached_next_control_def next_control_def)
  from control reached found
  have false_iff: "fst (click_next_if_available d w) = Inr False \<longleftrightarrow>
        (\<forall>sel\<in>set next_candidates. \<exists>btns. find_elements d w CSS_SELECTOR sel = Inr btns) \<and>
        (\<forall>el. numeric_target d w = Inr (Some el) \<or> reached_next_control d w el \<longrightarrow>
              \<not> clicks d w el)"
    by blast
  have raises_iff: "(\<exists>e. fst (click_next_if_available d w) = Inl e) \<longleftrightarrow>
        (\<exists>sel\<in>set next_candidates. \<exists>e. find_elements d w CSS_SELECTOR sel = Inl e) \<and>
        (\<forall>el. numeric_target d w = Inr (Some el) \<or> reached_next_control d w el \<longrightarrow>
              \<not> clicks d w el)"
  proof -
    have "(\<exists>e. fst (click_next_if_available d w) = Inl e) \<longleftrightarrow>
        fst (click_next_if_available d w) \<noteq> Inr True \<and>
        fst (click_next_if_available d w) \<noteq> Inr False"
      by (cases "fst (click_next_if_available d w)") auto
    moreover have "(\<exists>sel\<in>set next_candidates. \<exists>e. find_elements d w CSS_SELECTOR sel = Inl e) \<longleftrightarrow>
        \<not> (\<forall>sel\<in>set next_candidates. \<exists>btns. find_elements d w CSS_SELECTOR sel = Inr btns)"
      by (metis sum.exhaust sum.distinct(1))
    ultimately show ?thesis using true_iff false_iff by blast
  qed
  have handover: "click_next_if_available d w = next_button_loop d w next_candidates"
    if "\<forall>l. numeric_target d w = Inr (Some l) \<longrightarrow> \<not> clicks d w l"
    using cases that by (auto simp: clicks_def)
  have numeric: "click_next_if_available d w = (Inr True, time_sleep d after PAGE_PAUSE_SECONDS)"
    if "numeric_target d w = Inr (Some l) \<and> el_click d w l = Inr after"
    using that by (simp add: click_next_if_available_def)
  note link = numeric_target_iff [of d w l]
  have ends: "\<exists>w0. click_next_if_available d w0 = (Inr False, final)"
    if "scrape_loop cfg d w sink page_index = Some (None, rows, final, n)"
    using scrape_loop_ends_on_False [OF that] by blast
  have stops: "scrape_loop cfg d w sink page_index = Some (None, sink1, w3, page_index)"
    if "discover cfg d w = Some (cards, w1) \<and>
       extract_cards cfg d w1 cards sink = (None, sink1, w2) \<and>
       click_next_if_available d w2 = (Inr False, w3)"
    using that by (subst scrape_loop.simps) simp
  from true_iff true false_iff false raised raises_iff handover numeric link ends stops
  show ?thesis by blast
qed

theorem click_next_true_iff_clicked_witness:
  "find_active_page_els sim on_page3 candidates_active = Inr [10]
   \<and> el_text sim on_page3 10 = Inr ''3''
   \<and> py_int (py_strip ''3'') = Inr 3
   \<and> py_str (3 + 1) = Inr ''4''
   \<and> find_elements sim on_page3 XPATH (next_link_xpath ''4'') = Inr []
   \<and> find_elements sim on_page3 XPATH (generic_xpath ''4'') = Inr [11]
   \<and> numeric_target sim on_page3 = Inr (Some 11)
   \<and> el_click sim on_page3 11 = Inr (navigate on_page3 11)
   \<and> click_next_if_available sim on_page3 =
       (Inr True, time_sleep sim (navigate on_page3 11) PAGE_PAUSE_SECONDS)
   \<and> shown (navigate on_page3 11) = last_page
   \<and> click_next_if_available sim on_last_page = (Inr False, on_last_page)
   \<and> numeric_target sim on_last_page = Inr None
   \<and> \<not> reached_next_control sim on_last_page 12
   \<and> reached_next_control late_failure letters_ok 12
   \<and> clicks late_failure letters_ok 12
   \<and> find_elements late_failure letters_ok CSS_SELECTOR ''a[title='Next']'' =
       Inl WebDriverException
   \<and> fst (click_next_if_available late_failure letters_ok) = Inr True
   \<and> click_next_if_available late_failure on_last_page =
       (Inl WebDriverException, on_last_page)
   \<and> scrape_results default_config sim site =
       Some (None,
             [[''name'', ''email'', ''affiliation'', ''department''],
              [''Jane Doe'', [], ''Student - Foo'', ''Dept of X''],
              [''Ann Roe'', [], ''Staff'', ''Physics'']],
             site\<lparr>shown := site_page2, later := [], clicked := [11], clock := 2\<rparr>, 2)
   \<and> (\<exists>w0. click_next_if_available sim w0 =
         (Inr False, site\<lparr>shown := site_page2, later := [], clicked := [11], clock := 2\<rparr>))"
proof -
  have indicator: "find_active_page_els sim on_page3 candidates_active = Inr [10]"
    by code_simp
  have reads: "el_text sim on_page3 10 = Inr ''3''"
    by code_simp
  have number: "py_int (py_strip ''3'') = Inr 3"
    by code_simp
  have label: "py_str (3 + 1) = Inr ''4''"
    by code_simp
  have scoped: "find_elements sim on_page3 XPATH (next_link_xpath ''4'') = Inr []"
    by code_simp
  have container: "find_elements sim on_page3 XPATH (generic_xpath ''4'') = Inr [11]"
    by code_simp
  have click: "el_click sim on_page3 11 = Inr (navigate on_page3 11)"
    by code_simp
  have landed: "shown (navigate on_page3 11) = last_page"
    by code_simp
  have stays: "click_next_if_available sim on_last_page = (Inr False, on_last_page)"
    by code_simp
  have no_indicator: "numeric_target sim on_last_page = Inr None"
    by code_simp
  have disabled: "\<not> reached_next_control sim on_last_page 12"
    by code_simp
  have reached: "reached_next_control late_failure letters_ok 12"
    by code_simp
  have goes: "clicks late_failure letters_ok 12"
    by code_simp
  have fails: "find_elements late_failure letters_ok CSS_SELECTOR ''a[title='Next']'' =
       Inl WebDriverException"
    by code_simp
  have raises: "click_next_if_available late_failure on_last_page =
       (Inl WebDriverException, on_last_page)"
    by code_simp
  have run: "scrape_loop default_config sim site
       [[''name'', ''email'', ''affiliation'', ''department'']] 1 =
       Some (None,
             [[''name'', ''email'', ''affiliation'', ''department''],
              [''Jane Doe'', [], ''Student - Foo'', ''Dept of X''],
              [''Ann Roe'', [], ''Staff'', ''Physics'']],
             site\<lparr>shown := site_page2, later := [], clicked := [11], clock := 2\<rparr>, 2)"
    by code_simp
  note page3 = click_next_true_iff_clicked
    [where d = sim and w = on_page3 and l = 11 and after = "navigate on_page3 11"]
  note link = page3
    [THEN conjunct2, THEN conjunct2, THEN conjunct2, THEN conjunct2, THEN conjunct2,
     THEN conjunct2, THEN conjunct2, THEN conjunct2, THEN conjunct1]
  from link indicator reads number label scoped container
  have target: "numeric_target sim on_page3 = Inr (Some 11)"
    by blast
  note numeric = page3
    [THEN conjunct2, THEN conjunct2, THEN conjunct2, THEN conjunct2, THEN conjunct2,
     THEN conjunct2, THEN conjunct2, THEN conjunct1]
  from numeric target click
  have advanced: "click_next_if_available sim on_page3 =
       (Inr True, time_sleep sim (navigate on_page3 11) PAGE_PAUSE_SECONDS)"
    by blast
  from click_next_true_iff_clicked [where d = late_failure and w = letters_ok, THEN conjunct1]
    reached goes
  have passed: "fst (click_next_if_available late_failure letters_ok) = Inr True"
    by blast
  note ends = click_next_true_iff_clicked
    [where d = sim and w = site and cfg = default_config
       and sink = "[[''name'', ''email'', ''affiliation'', ''department'']]"
       and page_index = 1 and n = 2
       and rows = "[[''name'', ''email'', ''affiliation'', ''department''],
        [''Jane Doe'', [], ''Student - Foo'', ''Dept of X''],
        [''Ann Roe'', [], ''Staff'', ''Physics'']]"
       and final = "site\<lparr>shown := site_page2, later := [], clicked := [11], clock := 2\<rparr>",
     THEN conjunct2, THEN conjunct2, THEN conjunct2, THEN conjunct2, THEN conjunct2,
     THEN conjunct2, THEN conjunct2, THEN conjunct2, THEN conjunct2, THEN conjunct1]
  from ends run
  have ended: "\<exists>w0. click_next_if_available sim w0 =
         (Inr False, site\<lparr>shown := site_page2, later := [], clicked := [11], clock := 2\<rparr>)"
    by (rule mp)
  from indicator reads number label scoped container target click advanced landed stays
    no_indicator disabled reached goes fails passed raises run ended
  show ?thesis by (simp only: scrape_results_def simp_thms)
qed

text \<open>
  C1, as stated, fails. In a session whose window has been closed no control yields a
  successful click: the numeric path finds no link and each of the three lookups of Next
  controls raises. The call does not return false there, it raises, and the loop of
  \<^verbatim>\<open>scrape_results\<close> ends on that exception without a false return. The loop also
  ends without a false return on a page whose card has a heading that has left the
  document: reading the heading raises before \<^verbatim>\<open>click_next_if_available\<close> is called.
\<close>

theorem click_next_raises_counterexample:
  "numeric_target sim closed_window = Inl NoSuchWindowException
   \<and> map (find_elements sim closed_window CSS_SELECTOR) next_candidates =
       [Inl NoSuchWindowException, Inl NoSuchWindowException, Inl NoSuchWindowException]
   \<and> click_next_if_available sim closed_window = (Inl NoSuchWindowException, closed_window)
   \<and> fst (click_next_if_available sim closed_window) \<noteq> Inr False
   \<and> scrape_results default_config sim closed_window =
       Some (Some NoSuchWindowException,
             [[''name'', ''email'', ''affiliation'', ''department'']],
             closed_window\<lparr>clock := 20\<rparr>, 1)
   \<and> scrape_results default_config sim stale_title =
       Some (Some StaleElementReferenceException,
             [[''name'', ''email'', ''affiliation'', ''department'']],
             stale_title, 1)"
proof -
  have "numeric_target sim closed_window = Inl NoSuchWindowException"
    "map (find_elements sim closed_window CSS_SELECTOR) next_candidates =
       [Inl NoSuchWindowException, Inl NoSuchWindowException, Inl NoSuchWindowException]"
    "click_next_if_available sim closed_window = (Inl NoSuchWindowException, closed_window)"
    "fst (click_next_if_available sim closed_window) \<noteq> Inr False"
    "scrape_results default_config sim closed_window =
       Some (Some NoSuchWindowException,
             [[''name'', ''email'', ''affiliation'', ''department'']],
             closed_window\<lparr>clock := 20\<rparr>, 1)"
    "scrape_results default_config sim stale_title =
       Some (Some StaleElementReferenceException,
             [[''name'', ''email'', ''affiliation'', ''department'']],
             stale_title, 1)"
    by code_simp+
  then show ?thesis by blast
qed

lemma find_active_page_els_skips:
  "\<forall>s\<in>set before. find_elements d w CSS_SELECTOR s = Inr [] \<Longrightarrow>
   find_active_page_els d w (before @ sels) = find_active_page_els d w sels"
  by (induction before) auto

lemma numeric_target_not_decimal:
  assumes "candidates_active = before @ sel # after"
    and "\<forall>s\<in>set before. find_elements d w CSS_SELECTOR s = Inr []"
    and "find_elements d w CSS_SELECTOR sel = Inr (a # as)"
    and "el_text d w a = Inr t"
    and "\<not> decimal_digits (py_strip t)"
  shows "numeric_target d w = Inr None \<or> (\<exists>e. numeric_target d w = Inl e)"
proof -
  from assms(2) have "find_active_page_els d w (before @ sel # after) =
      find_active_page_els d w (sel # after)"
    by (rule find_active_page_els_skips)
  with assms(1) have "find_active_page_els d w candidates_active =
      find_active_page_els d w (sel # after)"
    by simp
  with assms(3) have els: "find_active_page_els d w candidates_active =
      (case element_texts d w (a # as) of Inl x \<Rightarrow> Inl x | Inr ts \<Rightarrow> Inr (a # as))"
    by simp
  from assms(5) have int: "\<exists>e. py_int (py_strip t) = Inl e"
    by (simp add: py_int_def decimal_digits_def)
  show ?thesis
  proof (cases "element_texts d w (a # as)")
    case (Inl x)
    with els show ?thesis by (simp add: numeric_target_def)
  next
    case (Inr ts)
    with els assms(4) int show ?thesis
      by (auto simp: numeric_target_def Let_def)
  qed
qed

text \<open>
  C10, as amended. When the first selector of the active-indicator cascade that finds
  anything finds an element whose trimmed text is not a non-empty string of the digits 0
  to 9, the numeric path attempts no click and lets no exception out: the call is the
  generic Next fallback and nothing else. Its result is then true exactly after a click on
  a displayed and enabled Next control that succeeded, false when no such control yields a
  successful click (a control whose click raises is passed over), and an exception only
  when a lookup of a Next control raises.
\<close>

theorem non_numeric_indicator_falls_back:
  assumes "candidates_active = before @ sel # after"
    and "\<forall>s\<in>set before. find_elements d w CSS_SELECTOR s = Inr []"
    and "find_elements d w CSS_SELECTOR sel = Inr (a # as)"
    and "el_text d w a = Inr t"
    and "\<not> decimal_digits (py_strip t)"
  shows "(\<forall>l. numeric_target d w \<noteq> Inr (Some l))
   \<and> click_next_if_available d w = next_button_loop d w next_candidates
   \<and> (click_next_if_available d w = (Inr True, w') \<longrightarrow>
        (\<exists>el w1. next_control d w el \<and> el_click d w el = Inr w1 \<and>
           w' = time_sleep d w1 PAGE_PAUSE_SECONDS))
   \<and> (click_next_if_available d w = (Inr False, w') \<longrightarrow>
        w' = w \<and> (\<forall>el. next_control d w el \<longrightarrow> \<not> clicks d w el))
   \<and> (click_next_if_available d w = (Inl e, w') \<longrightarrow>
        (\<exists>s\<in>set next_candidates. find_elements d w CSS_SELECTOR s = Inl e))"
proof -
  from numeric_target_not_decimal [OF assms]
  have none: "\<forall>l. numeric_target d w \<noteq> Inr (Some l)" by auto
  with click_next_cases [of d w]
  have fb: "click_next_if_available d w = next_button_loop d w next_candidates" by auto
  have "\<exists>el w1. next_control d w el \<and> el_click d w el = Inr w1 \<and>
           w' = time_sleep d w1 PAGE_PAUSE_SECONDS"
    if "click_next_if_available d w = (Inr True, w')"
    using that fb next_button_loop_clicked [of d w w'] by simp
  moreover have "w' = w \<and> (\<forall>el. next_control d w el \<longrightarrow> \<not> clicks d w el)"
    if "click_next_if_available d w = (Inr False, w')"
    using that fb next_button_loop_False [of d w next_candidates w']
      next_button_loop_none_clicks [of d w w'] by simp
  moreover have "\<exists>s\<in>set next_candidates. find_elements d w CSS_SELECTOR s = Inl e"
    if "click_next_if_available d w = (Inl e, w')"
    using that fb next_button_loop_raises [of d w next_candidates e w'] by simp
  ultimately show ?thesis using none fb by blast
qed

theorem non_numeric_indicator_falls_back_witness:
  "candidates_active = take 4 candidates_active @ ''.t-Report-pagination b'' #
      drop 5 candidates_active
   \<and> find_elements sim letters_ok CSS_SELECTOR ''.t-Report-pagination b'' = Inr [10]
   \<and> el_text sim letters_ok 10 = Inr ''abc''
   \<and> \<not> decimal_digits (py_strip ''abc'')
   \<and> click_next_if_available sim letters_ok = next_button_loop sim letters_ok next_candidates
   \<and> click_next_if_available sim letters_ok =
       (Inr True, time_sleep sim (navigate letters_ok 12) PAGE_PAUSE_SECONDS)
   \<and> next_control sim letters_ok 12
   \<and> el_click sim letters_ok 12 = Inr (navigate letters_ok 12)"
proof -
  have split: "candidates_active = take 4 candidates_active @ ''.t-Report-pagination b'' #
      drop 5 candidates_active"
    by code_simp
  have before: "\<forall>s\<in>set (take 4 candidates_active).
      find_elements sim letters_ok CSS_SELECTOR s = Inr []"
    by code_simp
  have indicator: "find_elements sim letters_ok CSS_SELECTOR ''.t-Report-pagination b'' =
      Inr [10]"
    by code_simp
  have reads: "el_text sim letters_ok 10 = Inr ''abc''"
    by code_simp
  have letters: "\<not> decimal_digits (py_strip ''abc'')"
    by code_simp
  have result: "click_next_if_available sim letters_ok =
       (Inr True, time_sleep sim (navigate letters_ok 12) PAGE_PAUSE_SECONDS)"
    by code_simp
  have control: "next_control sim letters_ok 12"
    by code_simp
  have click: "el_click sim letters_ok 12 = Inr (navigate letters_ok 12)"
    by code_simp
  from non_numeric_indicator_falls_back [OF split before indicator reads letters]
  have "click_next_if_available sim letters_ok =
      next_button_loop sim letters_ok next_candidates"
    by blast
  with split indicator reads letters result control click show ?thesis by blast
qed

text \<open>
  C10, as stated, fails: the result does not depend on the presence of a displayed and
  enabled Next control alone. Two sessions show the same page, with the indicator \<^verbatim>\<open>abc\<close>
  and the same displayed and enabled Next control; where the click on the control is
  intercepted, the call returns false, where it goes through, true.
\<close>

theorem non_numeric_indicator_counterexample:
  "el_text sim letters_ok 10 = Inr ''abc''
   \<and> el_text sim letters_blocked 10 = Inr ''abc''
   \<and> next_control sim letters_ok 12
   \<and> next_control sim letters_blocked 12
   \<and> (\<forall>el. next_control sim letters_ok el = next_control sim letters_blocked el)
   \<and> fst (click_next_if_available sim letters_ok) = Inr True
   \<and> click_next_if_available sim letters_blocked = (Inr False, letters_blocked)"
proof -
  have same: "next_control sim letters_ok el = next_control sim letters_blocked el" for el
    by (simp add: next_control_def next_candidates_def letters_ok_def letters_blocked_def
          letters_page_def last_page_def sim_defs)
  have "el_text sim letters_ok 10 = Inr ''abc''"
    "el_text sim letters_blocked 10 = Inr ''abc''"
    "next_control sim letters_ok 12"
    "next_control sim letters_blocked 12"
    "fst (click_next_if_available sim letters_ok) = Inr True"
    "click_next_if_available sim letters_blocked = (Inr False, letters_blocked)"
    by code_simp+
  with same show ?thesis by blast
qed

section \<open>Session driver: the claims\<close>

lemma clock_after_pauses:
  assumes "\<forall>v. time_time d v + 1 \<le> time_time d (pause d v)"
  shows "time_time d v + real i \<le> time_time d ((pause d ^^ i) v)"
proof (induction i)
  case 0
  then show ?case by simp
next
  case (Suc i)
  from assms have "time_time d ((pause d ^^ i) v) + 1 \<le> time_time d (pause d ((pause d ^^ i) v))"
    by blast
  with Suc show ?case by simp
qed

lemma poll_cards_Some: "poll_cards d v = Some cards \<Longrightarrow> cards \<noteq> []"
  by (auto simp: poll_cards_def split: sum.splits list.splits)

lemma poll_cards_None:
  "poll_cards d v = None \<longleftrightarrow>
     (\<exists>e. find_cards d v = Inl e) \<or> find_cards d v = Inr [] \<or>
     (\<exists>c cs e. find_cards d v = Inr (c # cs) \<and> el_tag_name d v c = Inl e)"
  by (auto simp: poll_cards_def split: sum.splits list.splits)

lemma discover_loop_returns:
  assumes progress: "\<forall>v. time_time d v + 1 \<le> time_time d (pause d v)"
  shows "\<exists>cards w' k. discover_loop d wait start v = Some (cards, w') \<and>
           w' = (pause d ^^ k) v \<and>
           (\<forall>i<k. time_time d ((pause d ^^ i) v) - start < real_of_int wait \<and>
                  poll_cards d ((pause d ^^ i) v) = None) \<and>
           (cards \<noteq> [] \<longrightarrow> poll_cards d w' = Some cards \<and>
                           time_time d w' - start < real_of_int wait) \<and>
           (cards = [] \<longrightarrow> real_of_int wait \<le> time_time d w' - start)"
proof (induction "nat \<lceil>real_of_int wait - (time_time d v - start)\<rceil>" arbitrary: v
    rule: less_induct)
  case less
  show ?case
  proof (cases "time_time d v - start < real_of_int wait")
    case False
    then have "discover_loop d wait start v = Some ([], v)"
      by (subst discover_loop.simps) simp
    with False have "discover_loop d wait start v = Some ([], v) \<and> v = (pause d ^^ 0) v \<and>
        (\<forall>i<0. time_time d ((pause d ^^ i) v) - start < real_of_int wait \<and>
               poll_cards d ((pause d ^^ i) v) = None) \<and>
        (([]::elem list) \<noteq> [] \<longrightarrow> poll_cards d v = Some [] \<and>
            time_time d v - start < real_of_int wait) \<and>
        (([]::elem list) = [] \<longrightarrow> real_of_int wait \<le> time_time d v - start)"
      by simp
    then show ?thesis by blast
  next
    case True
    show ?thesis
    proof (cases "poll_cards d v")
      case (Some cards)
      with True have "discover_loop d wait start v = Some (cards, v)"
        by (subst discover_loop.simps) simp
      with True Some poll_cards_Some [OF Some]
      have "discover_loop d wait start v = Some (cards, v) \<and> v = (pause d ^^ 0) v \<and>
        (\<forall>i<0. time_time d ((pause d ^^ i) v) - start < real_of_int wait \<and>
               poll_cards d ((pause d ^^ i) v) = None) \<and>
        (cards \<noteq> [] \<longrightarrow> poll_cards d v = Some cards \<and>
            time_time d v - start < real_of_int wait) \<and>
        (cards = [] \<longrightarrow> real_of_int wait \<le> time_time d v - start)"
        by simp
      then show ?thesis by blast
    next
      case None
      with True have step: "discover_loop d wait start v =
          discover_loop d wait start (pause d v)"
        by (subst discover_loop.simps) (simp add: pause_def)
      from progress have "time_time d v + 1 \<le> time_time d (pause d v)" by blast
      with True have "nat \<lceil>real_of_int wait - (time_time d (pause d v) - start)\<rceil> <
          nat \<lceil>real_of_int wait - (time_time d v - start)\<rceil>"
        by linarith
      from less [OF this] obtain cards w' k
        where run: "discover_loop d wait start (pause d v) = Some (cards, w')"
          and w': "w' = (pause d ^^ k) (pause d v)"
          and polls: "\<forall>i<k. time_time d ((pause d ^^ i) (pause d v)) - start < real_of_int wait \<and>
                  poll_cards d ((pause d ^^ i) (pause d v)) = None"
          and found: "cards \<noteq> [] \<longrightarrow> poll_cards d w' = Some cards \<and>
                           time_time d w' - start < real_of_int wait"
          and timeout: "cards = [] \<longrightarrow> real_of_int wait \<le> time_time d w' - start"
        by blast
      have "\<forall>i<Suc k. time_time d ((pause d ^^ i) v) - start < real_of_int wait \<and>
                  poll_cards d ((pause d ^^ i) v) = None"
      proof (intro allI impI)
        fix i assume "i < Suc k"
        show "time_time d ((pause d ^^ i) v) - start < real_of_int wait \<and>
                  poll_cards d ((pause d ^^ i) v) = None"
        proof (cases i)
          case 0
          with True None show ?thesis by simp
        next
          case (Suc j)
          with \<open>i < Suc k\<close> polls show ?thesis by (simp add: funpow_swap1)
        qed
      qed
      moreover from w' have "w' = (pause d ^^ Suc k) v" by (simp add: funpow_swap1)
      ultimately show ?thesis using step run found timeout by metis
    qed
  qed
qed

lemma clock_exact:
  assumes "\<forall>v. time_time d (pause d v) = time_time d v + 1"
  shows "time_time d ((pause d ^^ k) v) = time_time d v + real k"
  using assms by (induction k) simp_all

text \<open>
  C3. Time is the clock of the session, which a pause of one second advances by at least
  one second; the queries of a poll are taken to cost no time of their own. Discover then
  always returns, and it has no way to raise: it returns the cards of the first poll that
  finds some and can read the first one's tag, or, once the clock shows the timeout
  elapsed, the empty list. A poll that finds no card, or that raises, is followed by a
  one-second pause and another poll, as long as the timeout has not elapsed when the loop
  tests it. Only pauses change the session; there are at most as many as the timeout has
  seconds, so the pauses asked for never add up to more than the timeout, and on a clock
  that a pause advances by exactly one second Discover returns no later than the timeout.
\<close>

theorem discover_bounded_retry:
  assumes "\<forall>v. time_time d v + 1 \<le> time_time d (pause d v)"
  shows "(\<exists>cards w' k.
            discover cfg d w = Some (cards, w') \<and> w' = (pause d ^^ k) w \<and>
            int k \<le> max 0 (default_wait_seconds cfg) \<and>
            (\<forall>i<k. time_time d ((pause d ^^ i) w) - time_time d w <
                      real_of_int (default_wait_seconds cfg) \<and>
                   poll_cards d ((pause d ^^ i) w) = None) \<and>
            (cards \<noteq> [] \<longrightarrow>
               poll_cards d w' = Some cards \<and>
               time_time d w' - time_time d w < real_of_int (default_wait_seconds cfg)) \<and>
            (cards = [] \<longrightarrow>
               real_of_int (default_wait_seconds cfg) \<le> time_time d w' - time_time d w) \<and>
            ((\<forall>v. time_time d (pause d v) = time_time d v + 1) \<longrightarrow>
               time_time d w' - time_time d w \<le> real_of_int (max 0 (default_wait_seconds cfg))))
   \<and> (\<forall>v. poll_cards d v = None \<longleftrightarrow>
             (\<exists>e. find_cards d v = Inl e) \<or> find_cards d v = Inr [] \<or>
             (\<exists>c cs e. find_cards d v = Inr (c # cs) \<and> el_tag_name d v c = Inl e))"
proof -
  let ?wait = "default_wait_seconds cfg"
  let ?start = "time_time d w"
  from discover_loop_returns [OF assms, of ?wait ?start w] obtain cards w' k
    where run: "discover_loop d ?wait ?start w = Some (cards, w')"
      and w': "w' = (pause d ^^ k) w"
      and polls: "\<forall>i<k. time_time d ((pause d ^^ i) w) - ?start < real_of_int ?wait \<and>
                  poll_cards d ((pause d ^^ i) w) = None"
      and found: "cards \<noteq> [] \<longrightarrow> poll_cards d w' = Some cards \<and>
                           time_time d w' - ?start < real_of_int ?wait"
      and timeout: "cards = [] \<longrightarrow> real_of_int ?wait \<le> time_time d w' - ?start"
    by blast
  have bound: "int k \<le> max 0 ?wait"
  proof (cases k)
    case 0
    then show ?thesis by simp
  next
    case (Suc j)
    with polls have "time_time d ((pause d ^^ j) w) - ?start < real_of_int ?wait" by simp
    moreover from clock_after_pauses [OF assms, of w j]
    have "?start + real j \<le> time_time d ((pause d ^^ j) w)" .
    ultimately have "real j < real_of_int ?wait" by linarith
    then have "int j < ?wait" by linarith
    with Suc show ?thesis by simp
  qed
  have exact: "time_time d w' - ?start \<le> real_of_int (max 0 ?wait)"
    if "\<forall>v. time_time d (pause d v) = time_time d v + 1"
  proof -
    from clock_exact [OF that, of k w] w' have "time_time d w' - ?start = real k" by simp
    moreover from bound have "real k \<le> real_of_int (max 0 ?wait)" by linarith
    ultimately show ?thesis by simp
  qed
  from run have "discover cfg d w = Some (cards, w')" by (simp add: discover_def)
  with w' bound polls found timeout exact poll_cards_None [of d] show ?thesis by blast
qed

theorem discover_bounded_retry_witness:
  "(\<forall>v. time_time sim v + 1 \<le> time_time sim (pause sim v))
   \<and> discover default_config sim slow_page = Some ([1], slow_page\<lparr>clock := 3\<rparr>)
   \<and> (pause sim ^^ 3) slow_page = slow_page\<lparr>clock := 3\<rparr>
   \<and> poll_cards sim slow_page = None
   \<and> find_cards sim slow_page = Inr []
   \<and> discover short_wait sim stale_page = Some ([], stale_page\<lparr>clock := 2\<rparr>)
   \<and> find_cards sim stale_page = Inr [7]
   \<and> el_tag_name sim stale_page 7 = Inl StaleElementReferenceException
   \<and> poll_cards sim stale_page = None
   \<and> (\<exists>k. stale_page\<lparr>clock := 2\<rparr> = (pause sim ^^ k) stale_page \<and> int k \<le> 2)"
proof -
  have progress: "\<forall>v. time_time sim v + 1 \<le> time_time sim (pause sim v)"
    by (simp add: sim_def pause_def)
  have slow: "discover default_config sim slow_page = Some ([1], slow_page\<lparr>clock := 3\<rparr>)"
    by code_simp
  have three: "(pause sim ^^ 3) slow_page = slow_page\<lparr>clock := 3\<rparr>"
    by code_simp
  have first_poll: "poll_cards sim slow_page = None" "find_cards sim slow_page = Inr []"
    by code_simp+
  have stale: "discover short_wait sim stale_page = Some ([], stale_page\<lparr>clock := 2\<rparr>)"
    by code_simp
  have raises: "find_cards sim stale_page = Inr [7]"
    "el_tag_name sim stale_page 7 = Inl StaleElementReferenceException"
    "poll_cards sim stale_page = None"
    by code_simp+
  have wait: "max 0 (default_wait_seconds short_wait) = 2"
    by code_simp
  from discover_bounded_retry [OF progress, of short_wait stale_page] stale wait
  have "\<exists>k. stale_page\<lparr>clock := 2\<rparr> = (pause sim ^^ k) stale_page \<and> int k \<le> 2"
    by auto
  with progress slow three first_poll stale raises show ?thesis by blast
qed

section \<open>Email resolver: the claims\<close>

lemma get_email_from_profile_cleanup:
  assumes "current_window_handle d w = Inr original_window"
    and "execute_script d w ''window.open(arguments[0], '_blank');'' href = Inr w1"
    and "window_handles d w1 = Inr hs" and "hs \<noteq> []"
    and "switch_to_window d w1 (last hs) = Inr w2"
    and "profile_lookup cfg d w2 = (r, w3)"
  shows "get_email_from_profile cfg d w href =
     (case close d w3 of
        Inl e \<Rightarrow> (Inl e, w3)
      | Inr w4 \<Rightarrow>
          (case switch_to_window d w4 original_window of
             Inl e \<Rightarrow> (Inl e, w4)
           | Inr w5 \<Rightarrow> (r, w5)))"
  using assms by (simp add: get_email_from_profile_def)

text \<open>
  C7 on a session in which closing the profile window raises. With profile navigation on,
  the lookup for card 1 opens the profile in a new window and finds the address there;
  \<^verbatim>\<open>driver.close()\<close> then raises in the \<^verbatim>\<open>finally\<close> block, the switch back to the
  original window is skipped, and \<^verbatim>\<open>parse_card\<close> swallows the exception: the email is
  empty, the second window is still open and still has the focus, and the card is no
  longer in view. Where closing works, the same lookup returns the address, closes the
  window and restores the focus.
\<close>

theorem profile_lookup_close_raises:
  "parse_card follow_profile sim linked_card 1 =
     (Inr (Some \<lparr>name = ''Jane Doe'', email = ''jane@stanford.edu'', affiliation = ''Staff'',
                 department = ''Physics''\<rparr>), linked_card)
   \<and> fst (parse_card follow_profile sim stuck_tab 1) =
       Inr (Some \<lparr>name = ''Jane Doe'', email = [], affiliation = ''Staff'',
                  department = ''Physics''\<rparr>)
   \<and> focus stuck_tab = ''main''
   \<and> windows stuck_tab = [''main'']
   \<and> focus (snd (parse_card follow_profile sim stuck_tab 1)) = ''tab''
   \<and> windows (snd (parse_card follow_profile sim stuck_tab 1)) = [''main'', ''tab'']
   \<and> fst (get_email_from_profile follow_profile sim stuck_tab ''https://example.org/profile/1'') =
       Inl NoSuchWindowException
   \<and> text_lines sim (snd (parse_card follow_profile sim stuck_tab 1)) 1 = []"
  by code_simp

end
